theory Spec2Isabelle
  imports Complex_Main "HOL-Library.Multiset"
begin

section \<open>Tensors, errors and populations\<close>

text \<open>
  The behaviours of \<^verbatim>\<open>Learning/STDP/Behaviour.py\<close> operate on one-dimensional torch
  tensors (a value per neuron) and on weight matrices. A vector is a list of reals, a
  matrix a list of rows, a boolean mask a list of booleans. Arithmetic is the exact
  arithmetic of the reals; rounding, infinities and NaN of the 32-bit floats are outside
  the model. Every exception the Python raises is a value \<open>Inl e\<close> of the result.
\<close>

datatype error = ShapeError | IndexError | KeyError | TypeError | RuntimeError | AssertionError

text \<open>
  \<^verbatim>\<open>x += y\<close> on tensors: \<open>y\<close> must have the shape of \<open>x\<close> or be broadcast from a single
  element; the shape of \<open>x\<close> never changes.
\<close>

definition iadd :: "real list \<Rightarrow> real list \<Rightarrow> error + real list" where
  "iadd xs ys =
     (if length ys = length xs then Inr (map2 (\<lambda>x y. x + y) xs ys)
      else if length ys = 1 then Inr (map (\<lambda>x. x + hd ys) xs)
      else Inl ShapeError)"

text \<open>\<^verbatim>\<open>x + y\<close> on tensors, out of place: either side may be broadcast from one element.\<close>

definition tadd :: "real list \<Rightarrow> real list \<Rightarrow> error + real list" where
  "tadd xs ys =
     (if length ys = length xs then Inr (map2 (\<lambda>x y. x + y) xs ys)
      else if length ys = 1 then Inr (map (\<lambda>x. x + hd ys) xs)
      else if length xs = 1 then Inr (map (\<lambda>y. hd xs + y) ys)
      else Inl ShapeError)"

text \<open>
  The parameters a LIF behaviour copies onto its population
  (\<^verbatim>\<open>set_parameters_as_variables\<close>), and the two configurations of the module.
\<close>

record LIF_params =
  v_reset :: real
  v_rest :: real
  tau :: real
  R :: real
  threshold :: real

definition EXC_CONFIG :: LIF_params where
  "EXC_CONFIG = \<lparr>v_reset = -65, v_rest = -65, tau = 10, R = 2, threshold = -55\<rparr>"

definition INH_CONFIG :: LIF_params where
  "INH_CONFIG = \<lparr>v_reset = -65, v_rest = -65, tau = 10, R = 2, threshold = -55\<rparr>"

definition EXCITATORY_NEURON_SIZE :: nat where
  "EXCITATORY_NEURON_SIZE = 100"

definition INHIBITORY_NEURON_SIZE :: nat where
  "INHIBITORY_NEURON_SIZE = EXCITATORY_NEURON_SIZE div 4"

definition ITER :: nat where
  "ITER = 4000"

text \<open>
  A \<^verbatim>\<open>NeuronGroup\<close>: its size, the iteration counter the network gives it, and the
  variables the behaviours keep on it.
\<close>

record neurons =
  pop_size :: nat
  iteration :: int
  params :: LIF_params
  v :: "real list"
  spikes :: "bool list"
  I :: "real list"

section \<open>LIF\<close>

text \<open>\<^verbatim>\<open>LIF.initialize\<close>: \<open>v\<close> is a vector of ones times \<open>v_rest\<close>, \<open>spikes\<close> a vector of zeros.\<close>

definition LIF_initialize :: "LIF_params \<Rightarrow> neurons \<Rightarrow> neurons" where
  "LIF_initialize cfg n =
     n\<lparr>params := cfg,
       v := map (\<lambda>one. one * v_rest cfg) (replicate (pop_size n) 1),
       spikes := replicate (pop_size n) False\<rparr>"

text \<open>\<^verbatim>\<open>LIF._dv_dt\<close>: \<open>(v_rest - v) + R * I\<close>.\<close>

definition dv_dt :: "neurons \<Rightarrow> error + real list" where
  "dv_dt n =
     (let delta_v = map (\<lambda>x. v_rest (params n) - x) (v n);
          input_current = map (\<lambda>i. R (params n) * i) (I n)
      in tadd delta_v input_current)"

text \<open>
  \<^verbatim>\<open>LIF._fire\<close>: the spike vector is overwritten by \<open>v >= threshold\<close>, then \<open>v\<close> is set to
  \<open>v_reset\<close> under that mask.
\<close>

definition fire :: "neurons \<Rightarrow> neurons" where
  "fire n =
     (let n1 = n\<lparr>spikes := map (\<lambda>x. threshold (params n) \<le> x) (v n)\<rparr>
      in n1\<lparr>v := map2 (\<lambda>s x. if s then v_reset (params n1) else x) (spikes n1) (v n1)\<rparr>)"

text \<open>
  \<^verbatim>\<open>LIF.forward\<close>: \<^verbatim>\<open>_fire\<close>, then \<^verbatim>\<open>v += _dv_dt / tau\<close> on the population \<^verbatim>\<open>_fire\<close> left.
  The division is that of the reals; a \<open>tau\<close> of zero, where torch gives infinities or
  NaN and HOL gives 0, is outside the model.
\<close>

definition LIF_forward :: "neurons \<Rightarrow> error + neurons" where
  "LIF_forward n =
     (let n1 = fire n in
      case dv_dt n1 of
        Inl e \<Rightarrow> Inl e
      | Inr d \<Rightarrow>
          (case iadd (v n1) (map (\<lambda>x. x / tau (params n1)) d) of
             Inl e \<Rightarrow> Inl e
           | Inr v' \<Rightarrow> Inr (n1\<lparr>v := v'\<rparr>)))"

section \<open>WeightClip\<close>

record WeightClip =
  w_min :: real
  w_max :: real

text \<open>
  \<^verbatim>\<open>WeightClip.initialize\<close>: the bounds default to 0 and 1, and the assertion
  \<^verbatim>\<open>0 <= w_min < w_max\<close> guards them.
\<close>

definition WeightClip_initialize :: "real option \<Rightarrow> real option \<Rightarrow> error + WeightClip" where
  "WeightClip_initialize lo hi =
     (let lo' = (case lo of None \<Rightarrow> 0 | Some x \<Rightarrow> x);
          hi' = (case hi of None \<Rightarrow> 1 | Some x \<Rightarrow> x)
      in if 0 \<le> lo' \<and> lo' < hi' then Inr \<lparr>w_min = lo', w_max = hi'\<rparr>
         else Inl AssertionError)"

text \<open>\<^verbatim>\<open>torch.clip(x, lo, hi)\<close> on one entry is \<open>min (max x lo) hi\<close>.\<close>

definition clip :: "real \<Rightarrow> real \<Rightarrow> real \<Rightarrow> real" where
  "clip x lo hi = min (max x lo) hi"

text \<open>\<^verbatim>\<open>WeightClip.forward\<close>: the weight matrix of the synapse group is replaced by its clip.\<close>

definition WeightClip_forward :: "WeightClip \<Rightarrow> real list list \<Rightarrow> real list list" where
  "WeightClip_forward c W = map (map (\<lambda>x. clip x (w_min c) (w_max c))) W"

section \<open>KWTA\<close>

text \<open>\<^verbatim>\<open>KWTA.initialize\<close> stores the parameter \<open>k\<close> (default \<^verbatim>\<open>None\<close>) and checks nothing.\<close>

record KWTA =
  k :: "int option"

definition KWTA_initialize :: "int option \<Rightarrow> error + KWTA" where
  "KWTA_initialize kopt = Inr \<lparr>k = kopt\<rparr>"

text \<open>
  \<^verbatim>\<open>torch.topk(xs, k)\<close>: the \<open>k\<close> largest values, largest first; it raises when \<open>k\<close> is
  negative or larger than the tensor. \<^verbatim>\<open>Tensor.min()\<close> raises on an empty tensor.
\<close>

definition topk :: "real list \<Rightarrow> int \<Rightarrow> error + real list" where
  "topk xs kk =
     (if kk < 0 \<or> int (length xs) < kk then Inl RuntimeError
      else Inr (take (nat kk) (rev (sort xs))))"

fun tensor_min :: "real list \<Rightarrow> error + real" where
  "tensor_min [] = Inl RuntimeError"
| "tensor_min (x # xs) = Inr (fold min xs x)"

text \<open>
  \<^verbatim>\<open>KWTA.forward\<close>. \<open>will_spike_v\<close> is the boolean mask times \<open>v - threshold\<close>: the margin
  of a candidate, zero elsewhere. The comparison of \<^verbatim>\<open>torch.sum(will_spike)\<close> with a
  \<open>k\<close> that is \<^verbatim>\<open>None\<close> raises a TypeError.
\<close>

definition KWTA_forward :: "KWTA \<Rightarrow> neurons \<Rightarrow> error + neurons" where
  "KWTA_forward b n =
     (let will_spike = map (\<lambda>x. threshold (params n) \<le> x) (v n);
          will_spike_v = map2 (\<lambda>s x. of_bool s * (x - threshold (params n))) will_spike (v n)
      in case k b of
           None \<Rightarrow> Inl TypeError
         | Some kk \<Rightarrow>
             if int (length (filter (\<lambda>s. s) will_spike)) \<le> kk then Inr n
             else
               (case topk will_spike_v kk of
                  Inl e \<Rightarrow> Inl e
                | Inr k_values \<Rightarrow>
                    (case tensor_min k_values of
                       Inl e \<Rightarrow> Inl e
                     | Inr min_value \<Rightarrow>
                         Inr (n\<lparr>v := map2 (\<lambda>w x. if w < min_value then v_reset (params n) else x)
                                       will_spike_v (v n)\<rparr>))))"

text \<open>
  The words of the specification for the competition: the candidates are the neurons at
  or above the threshold, the margin of a candidate is \<open>v - threshold\<close>, and the
  \<open>k\<close>-th largest margin is entry \<open>k - 1\<close> of the margins sorted largest first.
\<close>

definition margins :: "neurons \<Rightarrow> real list" where
  "margins n = map (\<lambda>x. x - threshold (params n)) (filter (\<lambda>x. threshold (params n) \<le> x) (v n))"

definition kth_largest :: "nat \<Rightarrow> real list \<Rightarrow> real" where
  "kth_largest j xs = rev (sort xs) ! (j - 1)"

definition spike_count :: "neurons \<Rightarrow> nat" where
  "spike_count n = length (filter (\<lambda>s. s) (spikes n))"

section \<open>Input\<close>

text \<open>
  \<^verbatim>\<open>Input.initialize\<close> stores the waveform (parameter \<^verbatim>\<open>I\<close>, default \<^verbatim>\<open>None\<close>) and
  zeroes the current; it checks nothing.
\<close>

record Input =
  input :: "real list list option"

definition reset_inputs :: "neurons \<Rightarrow> neurons" where
  "reset_inputs n = n\<lparr>I := replicate (pop_size n) 0\<rparr>"

definition Input_initialize :: "real list list option \<Rightarrow> neurons \<Rightarrow> error + Input \<times> neurons" where
  "Input_initialize wave n = Inr (\<lparr>input = wave\<rparr>, reset_inputs n)"

text \<open>
  \<^verbatim>\<open>Input.forward\<close>: the current is zeroed, then row \<open>iteration - 1\<close> of the waveform is
  added. Subscripting \<^verbatim>\<open>None\<close> is a TypeError; a row index is read as Python reads it
  (a negative one counts from the end) and is an IndexError out of range.
\<close>

definition Input_forward :: "Input \<Rightarrow> neurons \<Rightarrow> error + neurons" where
  "Input_forward b n =
     (let n1 = reset_inputs n in
      case input b of
        None \<Rightarrow> Inl TypeError
      | Some wave \<Rightarrow>
          (let len = int (length wave);
               idx = iteration n1 - 1;
               j = (if idx < 0 then len + idx else idx)
           in if 0 \<le> j \<and> j < len then
                (case iadd (I n1) (wave ! nat j) of
                   Inl e \<Rightarrow> Inl e
                 | Inr i' \<Rightarrow> Inr (n1\<lparr>I := i'\<rparr>))
              else Inl IndexError))"

section \<open>Synapse\<close>

datatype synapse_tag = GLUTAMATE | GABA

text \<open>
  A \<^verbatim>\<open>SynapseGroup\<close>: source and destination population (their positions in the
  network), its tag and its weight matrix, one row per destination neuron. A network
  is its populations and its synapse groups.
\<close>

record SynapseGroup =
  src :: nat
  dst :: nat
  tag :: synapse_tag
  W :: "real list list"

record network =
  pops :: "neurons list"
  syns :: "SynapseGroup list"

text \<open>\<^verbatim>\<open>torch.matmul(W, x)\<close> of a matrix and a vector: every row has the length of \<open>x\<close>.\<close>

definition matmul :: "real list list \<Rightarrow> real list \<Rightarrow> error + real list" where
  "matmul A x =
     (if list_all (\<lambda>row. length row = length x) A
      then Inr (map (\<lambda>row. sum_list (map2 (\<lambda>a b. a * b) row x)) A)
      else Inl ShapeError)"

text \<open>\<^verbatim>\<open>Synapse._get_presynaptic_inputs\<close>: \<open>W\<close> times the source's spikes as 0/1 values.\<close>

definition get_presynaptic_inputs :: "network \<Rightarrow> SynapseGroup \<Rightarrow> error + real list" where
  "get_presynaptic_inputs net s = matmul (W s) (map of_bool (spikes (pops net ! src s)))"

text \<open>
  \<^verbatim>\<open>Synapse.forward\<close> on population \<open>j\<close>: the afferent groups tagged GLUTAMATE add their
  presynaptic input to \<open>I\<close>, then the afferent groups tagged GABA subtract theirs.
  \<^verbatim>\<open>neurons.afferent_synapses\<close> is a dictionary keyed by tag, and each of the two
  subscripts raises a KeyError when no synapse group of the network carries the tag;
  when some group does, the entry is the list of the groups with that tag that end at the
  population (empty when none does). The GABA subscript is evaluated after the
  GLUTAMATE inputs are added.
\<close>

fun add_inputs :: "network \<Rightarrow> real \<Rightarrow> SynapseGroup list \<Rightarrow> real list \<Rightarrow> error + real list" where
  "add_inputs net sign [] cur = Inr cur"
| "add_inputs net sign (s # ss) cur =
     (case get_presynaptic_inputs net s of
        Inl e \<Rightarrow> Inl e
      | Inr x \<Rightarrow>
          (case iadd cur (map (\<lambda>y. sign * y) x) of
             Inl e \<Rightarrow> Inl e
           | Inr cur' \<Rightarrow> add_inputs net sign ss cur'))"

definition carries_tag :: "SynapseGroup list \<Rightarrow> synapse_tag \<Rightarrow> bool" where
  "carries_tag ss t = list_ex (\<lambda>s. tag s = t) ss"

definition afferent_synapses ::
  "network \<Rightarrow> nat \<Rightarrow> synapse_tag \<Rightarrow> error + SynapseGroup list" where
  "afferent_synapses net j t =
     (if carries_tag (syns net) t
      then Inr (filter (\<lambda>s. dst s = j \<and> tag s = t) (syns net))
      else Inl KeyError)"

definition Synapse_forward :: "network \<Rightarrow> nat \<Rightarrow> error + neurons" where
  "Synapse_forward net j =
     (let n = pops net ! j in
      case afferent_synapses net j GLUTAMATE of
        Inl e \<Rightarrow> Inl e
      | Inr glutamate \<Rightarrow>
          (case add_inputs net 1 glutamate (I n) of
             Inl e \<Rightarrow> Inl e
           | Inr i1 \<Rightarrow>
               (case afferent_synapses net j GABA of
                  Inl e \<Rightarrow> Inl e
                | Inr gaba \<Rightarrow>
                    (case add_inputs net (- 1) gaba i1 of
                       Inl e \<Rightarrow> Inl e
                     | Inr i2 \<Rightarrow> Inr (n\<lparr>I := i2\<rparr>)))))"

section \<open>The step loop\<close>

text \<open>
  Modelled from the spec: the step loop of the network and the behaviours attached to a
  population are not in the module (the loop is the simulation library's, the populations
  are built by the module's callers). By the specification the iteration counter starts
  at 1 and grows by one per iteration, and a population runs injector, aggregator and
  membrane update in that order. A schedule is the list of behaviour calls of one
  iteration, each on the population at the given position; \<open>population_behaviours\<close> is
  the specification's order for one population.
\<close>

datatype behaviour = InputB Input | SynapseB | LIFB

definition run_behaviour :: "nat \<times> behaviour \<Rightarrow> network \<Rightarrow> error + network" where
  "run_behaviour a net =
     (let j = fst a in
      if length (pops net) \<le> j then Inl IndexError
      else
        (case (case snd a of
                 InputB b \<Rightarrow> Input_forward b (pops net ! j)
               | SynapseB \<Rightarrow> Synapse_forward net j
               | LIFB \<Rightarrow> LIF_forward (pops net ! j)) of
           Inl e \<Rightarrow> Inl e
         | Inr n' \<Rightarrow> Inr (net\<lparr>pops := (pops net)[j := n']\<rparr>)))"

fun run_schedule :: "(nat \<times> behaviour) list \<Rightarrow> network \<Rightarrow> error + network" where
  "run_schedule [] net = Inr net"
| "run_schedule (a # as) net =
     (case run_behaviour a net of Inl e \<Rightarrow> Inl e | Inr net' \<Rightarrow> run_schedule as net')"

definition simulate_iteration :: "(nat \<times> behaviour) list \<Rightarrow> network \<Rightarrow> error + network" where
  "simulate_iteration sched net =
     run_schedule sched (net\<lparr>pops := map (\<lambda>n. n\<lparr>iteration := iteration n + 1\<rparr>) (pops net)\<rparr>)"

fun simulate_iterations :: "(nat \<times> behaviour) list \<Rightarrow> nat \<Rightarrow> network \<Rightarrow> error + network" where
  "simulate_iterations sched 0 net = Inr net"
| "simulate_iterations sched (Suc m) net =
     (case simulate_iteration sched net of
        Inl e \<Rightarrow> Inl e
      | Inr net' \<Rightarrow> simulate_iterations sched m net')"

definition population_behaviours :: "Input \<Rightarrow> nat \<Rightarrow> (nat \<times> behaviour) list" where
  "population_behaviours b j = [(j, InputB b), (j, SynapseB), (j, LIFB)]"

text \<open>
  A population as the network has it before the first iteration: the counter at 0,
  \<^verbatim>\<open>Input.initialize\<close> and \<^verbatim>\<open>LIF.initialize\<close> done.
\<close>

definition new_population :: "nat \<Rightarrow> LIF_params \<Rightarrow> neurons" where
  "new_population sz cfg =
     LIF_initialize cfg
       (reset_inputs \<lparr>pop_size = sz, iteration = 0, params = cfg, v = [], spikes = [], I = []\<rparr>)"

text \<open>
  The scenario of a network at rest. A synapse group is well shaped when its endpoints
  are populations of the network and its weight matrix has one row per destination
  neuron and one column per source neuron. A zero waveform has at least the given
  number of rows, each a row of zeros of the population's size. A quiet action is a
  call of \<^verbatim>\<open>Synapse.forward\<close> or \<^verbatim>\<open>LIF.forward\<close>, or of \<^verbatim>\<open>Input.forward\<close> with a zero
  waveform, on a population of the network.
\<close>

definition well_shaped :: "neurons list \<Rightarrow> SynapseGroup \<Rightarrow> bool" where
  "well_shaped ps s =
     (src s < length ps \<and> dst s < length ps \<and>
      length (W s) = pop_size (ps ! dst s) \<and>
      list_all (\<lambda>row. length row = pop_size (ps ! src s)) (W s))"

definition zero_waveform :: "nat \<Rightarrow> nat \<Rightarrow> real list list \<Rightarrow> bool" where
  "zero_waveform steps sz rows =
     (steps \<le> length rows \<and> list_all (\<lambda>row. row = replicate sz 0) rows)"

definition quiet_action :: "nat \<Rightarrow> neurons list \<Rightarrow> nat \<times> behaviour \<Rightarrow> bool" where
  "quiet_action steps ps a =
     (fst a < length ps \<and>
      (case snd a of
         InputB b \<Rightarrow>
           (case input b of
              None \<Rightarrow> False
            | Some rows \<Rightarrow> zero_waveform steps (pop_size (ps ! fst a)) rows)
       | SynapseB \<Rightarrow> True
       | LIFB \<Rightarrow> True))"

text \<open>
  Modelled from the spec: the end-to-end network, an excitatory population of
  \<^verbatim>\<open>EXCITATORY_NEURON_SIZE\<close> neurons and an inhibitory one of \<^verbatim>\<open>INHIBITORY_NEURON_SIZE\<close>,
  each with its configuration, and the given synapse groups.
\<close>

definition exc_inh_network :: "SynapseGroup list \<Rightarrow> network" where
  "exc_inh_network ss =
     \<lparr>pops = [new_population EXCITATORY_NEURON_SIZE EXC_CONFIG,
              new_population INHIBITORY_NEURON_SIZE INH_CONFIG],
      syns = ss\<rparr>"

text \<open>A population at rest: every potential at \<open>v_rest\<close> below the threshold, no current, no spike.\<close>

definition at_rest :: "neurons \<Rightarrow> bool" where
  "at_rest n =
     (v n = replicate (pop_size n) (v_rest (params n)) \<and>
      I n = replicate (pop_size n) 0 \<and>
      spikes n = replicate (pop_size n) False \<and>
      v_rest (params n) < threshold (params n))"

section \<open>InputGenerator\<close>

text \<open>
  The generator of torch is outside the module. It is a parameter of the model: a state
  \<open>'g\<close>, the state \<^verbatim>\<open>torch.manual_seed\<close> puts in place of the global one, and the draw of
  one uniform and of one normal value, each returning the value and the next state. A
  tensor of random values is drawn entry by entry, row after row.
\<close>

record 'g torch_rng =
  manual_seed :: "int \<Rightarrow> 'g"
  rand :: "'g \<Rightarrow> real \<times> 'g"
  normal :: "real \<Rightarrow> real \<Rightarrow> 'g \<Rightarrow> real \<times> 'g"

definition and_then :: "error + 'a \<Rightarrow> ('a \<Rightarrow> error + 'b) \<Rightarrow> error + 'b" where
  "and_then r f = (case r of Inl e \<Rightarrow> Inl e | Inr x \<Rightarrow> f x)"

fun draws :: "('g \<Rightarrow> real \<times> 'g) \<Rightarrow> nat \<Rightarrow> 'g \<Rightarrow> real list \<times> 'g" where
  "draws d 0 g = ([], g)"
| "draws d (Suc m) g =
     (case d g of (x, g1) \<Rightarrow> (case draws d m g1 of (xs, g2) \<Rightarrow> (x # xs, g2)))"

fun draw_rows :: "('g \<Rightarrow> real \<times> 'g) \<Rightarrow> nat \<Rightarrow> nat \<Rightarrow> 'g \<Rightarrow> real list list \<times> 'g" where
  "draw_rows d 0 cols g = ([], g)"
| "draw_rows d (Suc m) cols g =
     (case draws d cols g of (row, g1) \<Rightarrow>
        (case draw_rows d m cols g1 of (rows, g2) \<Rightarrow> (row # rows, g2)))"

text \<open>
  The tensor constructors raise on a negative dimension; \<^verbatim>\<open>torch.normal\<close> also raises on
  a negative standard deviation, \<^verbatim>\<open>Tensor.repeat\<close> on a negative count.
\<close>

definition torch_rand :: "'g torch_rng \<Rightarrow> int \<Rightarrow> int \<Rightarrow> 'g \<Rightarrow> error + real list list \<times> 'g" where
  "torch_rand rng rows cols g =
     (if rows < 0 \<or> cols < 0 then Inl RuntimeError
      else Inr (draw_rows (rand rng) (nat rows) (nat cols) g))"

definition torch_normal ::
  "'g torch_rng \<Rightarrow> real \<Rightarrow> real \<Rightarrow> int \<Rightarrow> int \<Rightarrow> 'g \<Rightarrow> error + real list list \<times> 'g" where
  "torch_normal rng mu sigma rows cols g =
     (if sigma < 0 \<or> rows < 0 \<or> cols < 0 then Inl RuntimeError
      else Inr (draw_rows (normal rng mu sigma) (nat rows) (nat cols) g))"

definition torch_zeros :: "int \<Rightarrow> int \<Rightarrow> error + real list list" where
  "torch_zeros rows cols =
     (if rows < 0 \<or> cols < 0 then Inl RuntimeError
      else Inr (replicate (nat rows) (replicate (nat cols) 0)))"

definition torch_full :: "int \<Rightarrow> real \<Rightarrow> error + real list" where
  "torch_full len x = (if len < 0 then Inl RuntimeError else Inr (replicate (nat len) x))"

definition tensor_repeat :: "'a list \<Rightarrow> int \<Rightarrow> error + 'a list" where
  "tensor_repeat xs reps =
     (if reps < 0 then Inl RuntimeError else Inr (concat (replicate (nat reps) xs)))"

text \<open>
  \<^verbatim>\<open>x[start:stop] = block\<close> along the first dimension: the bounds are read as Python reads
  a slice, and the block has the length of the slice or is broadcast from one entry.
\<close>

definition slice_index :: "nat \<Rightarrow> int \<Rightarrow> nat" where
  "slice_index len i = (if i < 0 then nat (max 0 (int len + i)) else min len (nat i))"

definition slice_assign :: "'a list \<Rightarrow> int \<Rightarrow> int \<Rightarrow> 'a list \<Rightarrow> error + 'a list" where
  "slice_assign xs start stop block =
     (let a = slice_index (length xs) start;
          b = max a (slice_index (length xs) stop)
      in if length block = b - a then Inr (take a xs @ block @ drop b xs)
         else if length block = 1 then Inr (take a xs @ replicate (b - a) (hd block) @ drop b xs)
         else Inl RuntimeError)"

text \<open>
  The generator object. Its gate probability is the attribute \<^verbatim>\<open>threshold\<close> of the source
  (named \<open>gate_threshold\<close> here, apart from the threshold of a population).
\<close>

record InputGenerator =
  mean :: real
  std :: real
  gate_threshold :: real
  signals :: "real list list list option"
  signal_orders :: "bool list"
  random_signal_no :: "real list"

definition gate :: "bool list list \<Rightarrow> real list list \<Rightarrow> real list list" where
  "gate enable xs = map2 (map2 (\<lambda>e x. of_bool e * x)) enable xs"

text \<open>\<^verbatim>\<open>InputGenerator.set_signals\<close>: seed, draw the gate and the values, keep both classes.\<close>

definition set_signals ::
  "'g torch_rng \<Rightarrow> InputGenerator \<Rightarrow> int \<Rightarrow> int \<Rightarrow> int \<Rightarrow> error + InputGenerator \<times> 'g" where
  "set_signals rng ig signal_duration population_size seed =
     and_then (torch_rand rng signal_duration population_size (manual_seed rng seed))
       (\<lambda>(u, g1).
          let enable_input = map (map (\<lambda>x. gate_threshold ig < x)) u in
          and_then (torch_normal rng (mean ig) (std ig) signal_duration population_size g1)
            (\<lambda>(random_input, g2).
               Inr (ig\<lparr>signals := Some [gate enable_input random_input,
                                         gate (map (map Not) enable_input) random_input]\<rparr>,
                    g2)))"

text \<open>\<^verbatim>\<open>InputGenerator.get_signal_over_iter\<close>: the signal, then the rest, repeated.\<close>

definition get_signal_over_iter ::
  "real list list \<Rightarrow> int \<Rightarrow> int \<Rightarrow> int \<Rightarrow> error + real list list" where
  "get_signal_over_iter signal signal_repeat rest_duration population_size =
     and_then (torch_zeros rest_duration population_size)
       (\<lambda>rest_signal.
          let signal_with_rest = signal @ rest_signal in
          tensor_repeat signal_with_rest signal_repeat)"

text \<open>
  \<^verbatim>\<open>InputGenerator.get_signal_no_over_iter\<close>: the labels of one episode, the class during a
  signal and \<open>-1\<close> during a rest, with one more rest at the end.
\<close>

definition get_signal_no_over_iter :: "bool \<Rightarrow> int \<Rightarrow> int \<Rightarrow> int \<Rightarrow> error + real list" where
  "get_signal_no_over_iter signal_no signal_duration signal_repeat rest_duration =
     and_then (torch_full rest_duration 1)
       (\<lambda>ones_rest.
          let rest_signal_no = map (\<lambda>x. x * (- 1)) ones_rest in
          and_then (torch_full signal_duration 1)
            (\<lambda>ones_signal.
               let signal_nos = map (\<lambda>x. x * of_bool signal_no) ones_signal;
                   signal_with_rest_no = signal_nos @ rest_signal_no
               in and_then (tensor_repeat signal_with_rest_no signal_repeat)
                    (\<lambda>repeated. Inr (repeated @ rest_signal_no))))"

text \<open>\<^verbatim>\<open>self.signals[signal_no]\<close>: the boolean indexes the list as 0 or 1.\<close>

definition signal_at :: "real list list list option \<Rightarrow> bool \<Rightarrow> error + real list list" where
  "signal_at sigs signal_no =
     (case sigs of
        None \<Rightarrow> Inl TypeError
      | Some l \<Rightarrow>
          if (if signal_no then 1 else 0) < length l
          then Inr (l ! (if signal_no then 1 else 0))
          else Inl IndexError)"

text \<open>
  One pass of the loop of \<^verbatim>\<open>get_random_signals\<close>, on the generator object, the input
  matrix and the state of the generator.
\<close>

definition episode ::
  "'g torch_rng \<Rightarrow> int \<Rightarrow> int \<Rightarrow> int \<Rightarrow> int \<Rightarrow> int \<Rightarrow> nat \<Rightarrow>
   InputGenerator \<times> real list list \<times> 'g \<Rightarrow> error + InputGenerator \<times> real list list \<times> 'g" where
  "episode rng iter_duration signal_duration signal_repeat rest_duration population_size i st =
     (case st of (ig, random_signal_input, g) \<Rightarrow>
        let start_time = int i * iter_duration;
            end_time = start_time + iter_duration
        in case rand rng g of (u, g1) \<Rightarrow>
             let signal_no = (1 / 2 < u) in
             and_then (signal_at (signals ig) signal_no)
               (\<lambda>signal.
             and_then (get_signal_over_iter signal signal_repeat rest_duration population_size)
               (\<lambda>iter_signal.
             and_then (torch_zeros rest_duration population_size)
               (\<lambda>iter_rest.
             and_then (slice_assign random_signal_input start_time end_time (iter_signal @ iter_rest))
               (\<lambda>random_signal_input'.
             and_then (get_signal_no_over_iter signal_no signal_duration signal_repeat rest_duration)
               (\<lambda>iter_signal_no.
             and_then (slice_assign (random_signal_no ig) start_time end_time iter_signal_no)
               (\<lambda>random_signal_no'.
             Inr (ig\<lparr>random_signal_no := random_signal_no',
                      signal_orders := signal_orders ig @ [signal_no]\<rparr>,
                  random_signal_input', g1))))))))"

fun episodes ::
  "'g torch_rng \<Rightarrow> int \<Rightarrow> int \<Rightarrow> int \<Rightarrow> int \<Rightarrow> int \<Rightarrow> nat list \<Rightarrow>
   InputGenerator \<times> real list list \<times> 'g \<Rightarrow> error + InputGenerator \<times> real list list \<times> 'g" where
  "episodes rng iter_duration sd sr rd ps [] st = Inr st"
| "episodes rng iter_duration sd sr rd ps (i # rest) st =
     and_then (episode rng iter_duration sd sr rd ps i st) (episodes rng iter_duration sd sr rd ps rest)"

text \<open>
  \<^verbatim>\<open>InputGenerator.get_random_signals\<close>. The result is the returned input matrix, the
  generator object (with the label vector \<^verbatim>\<open>random_signal_no\<close> and the list
  \<^verbatim>\<open>signal_orders\<close>) and the state the global generator is left in. The last argument is
  the state of the global generator when the method is called.
\<close>

definition get_random_signals ::
  "'g torch_rng \<Rightarrow> InputGenerator \<Rightarrow> int \<Rightarrow> int \<Rightarrow> int \<Rightarrow> int \<Rightarrow> int \<Rightarrow> int \<Rightarrow> 'g \<Rightarrow>
   error + real list list \<times> InputGenerator \<times> 'g" where
  "get_random_signals rng ig iter signal_duration signal_repeat rest_duration population_size seed g =
     (let iter_duration = (signal_duration + rest_duration) * signal_repeat + rest_duration;
          total_duration = iter_duration * iter;
          ig1 = ig\<lparr>signal_orders := []\<rparr>
      in and_then (set_signals rng ig1 signal_duration population_size seed)
           (\<lambda>(ig2, g1).
         and_then (torch_zeros total_duration population_size)
           (\<lambda>random_signal_input.
         and_then (torch_full total_duration 0)
           (\<lambda>labels.
         and_then (episodes rng iter_duration signal_duration signal_repeat rest_duration
                     population_size [0..<nat iter]
                     (ig2\<lparr>random_signal_no := labels\<rparr>, random_signal_input, g1))
           (\<lambda>(ig3, random_signal_input', g2). Inr (random_signal_input', ig3, g2))))))"


text \<open>
  The layout of one episode in the words of the specification: \<open>signal_repeat\<close> times a
  signal block of \<open>signal_duration\<close> rows followed by a rest block of \<open>rest_duration\<close> rows,
  then one more rest block. A timestep lies in a rest block when its offset in its
  episode is past the repeated part or past the signal within its repetition.
\<close>

definition in_rest_block :: "nat \<Rightarrow> nat \<Rightarrow> nat \<Rightarrow> nat \<Rightarrow> bool" where
  "in_rest_block sd sr rd t =
     (let off = t mod ((sd + rd) * sr + rd)
      in (sd + rd) * sr \<le> off \<or> sd \<le> off mod (sd + rd))"

definition episode_rows :: "real list list \<Rightarrow> nat \<Rightarrow> nat \<Rightarrow> nat \<Rightarrow> real list list" where
  "episode_rows signal sr rd ps =
     concat (replicate sr (signal @ replicate rd (replicate ps 0))) @ replicate rd (replicate ps 0)"

definition episode_labels :: "bool \<Rightarrow> nat \<Rightarrow> nat \<Rightarrow> nat \<Rightarrow> real list" where
  "episode_labels c sd sr rd =
     concat (replicate sr (replicate sd (of_bool c) @ replicate rd (- 1))) @ replicate rd (- 1)"

text \<open>A small generator for examples: a counter, its draws read off the count.\<close>

definition example_rng :: "nat torch_rng" where
  "example_rng =
     \<lparr>manual_seed = (\<lambda>s. nat \<bar>s\<bar>),
      rand = (\<lambda>g. (real (g mod 4) / 4, Suc g)),
      normal = (\<lambda>mu sigma g. (mu + sigma * (real (g mod 3) - 1), Suc g))\<rparr>"

definition example_generator :: InputGenerator where
  "example_generator =
     \<lparr>mean = 1, std = 2, gate_threshold = 1 / 2, signals = None, signal_orders = [],
      random_signal_no = []\<rparr>"

section \<open>Properties of the membrane step\<close>

lemma fire_spikes: "spikes (fire n) = map (\<lambda>x. threshold (params n) \<le> x) (v n)"
  by (simp add: fire_def Let_def)

lemma fire_v:
  "v (fire n) = map (\<lambda>x. if threshold (params n) \<le> x then v_reset (params n) else x) (v n)"
  by (simp add: fire_def Let_def zip_map1 zip_same_conv_map)

lemma fire_eq:
  "fire n = n\<lparr>spikes := map (\<lambda>x. threshold (params n) \<le> x) (v n),
               v := map (\<lambda>x. if threshold (params n) \<le> x then v_reset (params n) else x) (v n)\<rparr>"
  by (simp add: fire_def Let_def zip_map1 zip_same_conv_map)

lemma fire_I: "I (fire n) = I n"
  by (simp add: fire_def Let_def)

lemma fire_params: "params (fire n) = params n"
  by (simp add: fire_def Let_def)

lemma map2_add_map_map2:
  "length ys = length xs \<Longrightarrow>
   map2 (\<lambda>x y. x + y) xs (map g (map2 f xs ys)) = map2 (\<lambda>x y. x + g (f x y)) xs ys"
  by (induction xs ys rule: list_induct2') simp_all

lemma LIF_forward_same_shape:
  assumes "length (I n) = length (v n)"
  shows "LIF_forward n =
     Inr ((fire n)\<lparr>v := map2 (\<lambda>x i. x + (v_rest (params n) - x + R (params n) * i) / tau (params n))
                             (v (fire n)) (I n)\<rparr>)"
proof -
  have len: "length (I n) = length (v (fire n))"
    using assms by (simp add: fire_v)
  have d: "dv_dt (fire n) =
      Inr (map2 (\<lambda>x i. v_rest (params n) - x + R (params n) * i) (v (fire n)) (I n))"
    using len
    by (simp add: dv_dt_def Let_def tadd_def fire_I fire_params zip_map1 zip_map2
        split_def)
  have a: "iadd (v (fire n))
       (map (\<lambda>x. x / tau (params n))
          (map2 (\<lambda>x i. v_rest (params n) - x + R (params n) * i) (v (fire n)) (I n))) =
     Inr (map2 (\<lambda>x i. x + (v_rest (params n) - x + R (params n) * i) / tau (params n))
            (v (fire n)) (I n))"
    unfolding iadd_def using len map2_add_map_map2 [of "I n" "v (fire n)"]
    by (simp del: map_map)
  show ?thesis
    unfolding LIF_forward_def Let_def d fire_params by (simp add: a del: map_map)
qed

lemma LIF_forward_same_shape_nth:
  assumes "length (I n) = length (v n)" and "j < length (v n)"
  shows "v ((fire n)\<lparr>v := map2 (\<lambda>x i. x + (v_rest (params n) - x + R (params n) * i) / tau (params n))
                             (v (fire n)) (I n)\<rparr>) ! j =
         (if threshold (params n) \<le> v n ! j then v_reset (params n) else v n ! j) +
         (v_rest (params n) - (if threshold (params n) \<le> v n ! j then v_reset (params n) else v n ! j)
            + R (params n) * I n ! j) / tau (params n)"
  using assms by (simp add: fire_v)

text \<open>
  C1. With \<open>I\<close> of the shape of \<open>v\<close> (as \<^verbatim>\<open>neurons.vector\<close> allocates both), one
  \<^verbatim>\<open>LIF.forward\<close> returns; its spike vector is \<open>v >= threshold\<close> elementwise on the
  potentials the step started from; \<^verbatim>\<open>_fire\<close> then puts \<open>v_reset\<close> exactly at the spiking
  indices; and only then every potential is incremented by \<open>(v_rest - v + R * I) / tau\<close>
  computed from the potentials after the reset. A neuron that spiked ends the step at
  \<open>v_reset + (v_rest - v_reset + R * I[j]) / tau\<close>, any other at
  \<open>v[j] + (v_rest - v[j] + R * I[j]) / tau\<close>.
\<close>

theorem LIF_forward_fire_reset_then_integrate:
  assumes "length (I n) = length (v n)"
  shows "\<exists>n'. LIF_forward n = Inr n' \<and> n' = n\<lparr>v := v n', spikes := spikes n'\<rparr> \<and>
           spikes n' = map (\<lambda>x. threshold (params n) \<le> x) (v n) \<and>
           v (fire n) =
             map (\<lambda>x. if threshold (params n) \<le> x then v_reset (params n) else x) (v n) \<and>
           v n' = map2 (\<lambda>x i. x + (v_rest (params n) - x + R (params n) * i) / tau (params n))
                    (v (fire n)) (I n) \<and>
           (\<forall>j<length (v n).
              (threshold (params n) \<le> v n ! j \<longrightarrow>
                 v n' ! j = v_reset (params n) +
                   (v_rest (params n) - v_reset (params n) + R (params n) * I n ! j) / tau (params n)) \<and>
              (\<not> threshold (params n) \<le> v n ! j \<longrightarrow>
                 v n' ! j = v n ! j +
                   (v_rest (params n) - v n ! j + R (params n) * I n ! j) / tau (params n)))"
proof (intro exI conjI allI impI)
  show "LIF_forward n = Inr ((fire n)\<lparr>v := map2 (\<lambda>x i. x + (v_rest (params n) - x + R (params n) * i) / tau (params n))
                             (v (fire n)) (I n)\<rparr>)"
    by (rule LIF_forward_same_shape [OF assms])
next
  fix j
  assume "j < length (v n)" and "threshold (params n) \<le> v n ! j"
  then show "v ((fire n)\<lparr>v := map2 (\<lambda>x i. x + (v_rest (params n) - x + R (params n) * i) / tau (params n))
                             (v (fire n)) (I n)\<rparr>) ! j =
       v_reset (params n) +
         (v_rest (params n) - v_reset (params n) + R (params n) * I n ! j) / tau (params n)"
    using LIF_forward_same_shape_nth [OF assms, of j] by simp
next
  fix j
  assume "j < length (v n)" and "\<not> threshold (params n) \<le> v n ! j"
  then show "v ((fire n)\<lparr>v := map2 (\<lambda>x i. x + (v_rest (params n) - x + R (params n) * i) / tau (params n))
                             (v (fire n)) (I n)\<rparr>) ! j =
       v n ! j + (v_rest (params n) - v n ! j + R (params n) * I n ! j) / tau (params n)"
    using LIF_forward_same_shape_nth [OF assms, of j] by simp
qed (simp_all add: fire_eq)

theorem LIF_forward_fire_reset_then_integrate_witness:
  "length (I \<lparr>pop_size = 2, iteration = 1, params = EXC_CONFIG, v = [-50, -60],
               spikes = [False, False], I = [5, 0]\<rparr>) =
   length (v \<lparr>pop_size = 2, iteration = 1, params = EXC_CONFIG, v = [-50, -60],
               spikes = [False, False], I = [5, 0]\<rparr>) \<and>
   LIF_forward \<lparr>pop_size = 2, iteration = 1, params = EXC_CONFIG, v = [-50, -60],
                 spikes = [False, False], I = [5, 0]\<rparr> =
   Inr \<lparr>pop_size = 2, iteration = 1, params = EXC_CONFIG, v = [-64, -121 / 2],
         spikes = [True, False], I = [5, 0]\<rparr>"
  using LIF_forward_fire_reset_then_integrate
    [of "\<lparr>pop_size = 2, iteration = 1, params = EXC_CONFIG, v = [-50, -60],
          spikes = [False, False], I = [5, 0]\<rparr>"]
  by (auto simp add: EXC_CONFIG_def fire_eq)

text \<open>
  C2, as stated, fails: with the excitatory configuration, a neuron at \<open>-50\<close> with input
  current \<open>5\<close> spikes and ends the step at \<open>-64\<close>, not at \<open>v_reset = -65\<close>, because the
  increment is applied after the reset.
\<close>

theorem LIF_spiking_neuron_not_left_at_v_reset:
  "LIF_forward \<lparr>pop_size = 1, iteration = 1, params = EXC_CONFIG, v = [-50],
                 spikes = [False], I = [5]\<rparr> =
     Inr \<lparr>pop_size = 1, iteration = 1, params = EXC_CONFIG, v = [-64],
           spikes = [True], I = [5]\<rparr> \<and>
   threshold EXC_CONFIG \<le> [-50] ! 0 \<and>
   [-64] ! 0 \<noteq> v_reset EXC_CONFIG"
  by (simp add: LIF_forward_same_shape fire_eq EXC_CONFIG_def)

text \<open>
  C2, amended. A neuron at or above the threshold before the update has its spike set
  for that step and ends the step at \<open>v_reset + (v_rest - v_reset + R * I[j]) / tau\<close>. The
  next step overwrites the spike vector: whatever spike vector the population holds when
  the next step starts, that step's spike of the neuron is \<open>v[j] >= threshold\<close> on the
  potential this step left.
\<close>

theorem LIF_forward_spiking_neuron:
  assumes "length (I n) = length (v n)" and "j < length (v n)"
    and "threshold (params n) \<le> v n ! j"
  shows "\<exists>n'. LIF_forward n = Inr n' \<and> spikes n' ! j \<and>
           v n' ! j = v_reset (params n) +
             (v_rest (params n) - v_reset (params n) + R (params n) * I n ! j) / tau (params n) \<and>
           (\<forall>s. \<exists>n''. LIF_forward (n'\<lparr>spikes := s\<rparr>) = Inr n'' \<and>
                  spikes n'' ! j = (threshold (params n) \<le> v n' ! j))"
proof -
  let ?n' = "(fire n)\<lparr>v := map2 (\<lambda>x i. x + (v_rest (params n) - x + R (params n) * i) / tau (params n))
                             (v (fire n)) (I n)\<rparr>"
  have fwd: "LIF_forward n = Inr ?n'"
    by (rule LIF_forward_same_shape [OF assms(1)])
  have sp: "spikes ?n' ! j"
    using assms(2,3) by (simp add: fire_spikes)
  have vj: "v ?n' ! j = v_reset (params n) +
             (v_rest (params n) - v_reset (params n) + R (params n) * I n ! j) / tau (params n)"
    using LIF_forward_same_shape_nth [OF assms(1,2)] assms(3) by simp
  have len': "length (v ?n') = length (v n)" "length (I ?n') = length (v n)"
    using assms(1) by (simp_all add: fire_v fire_I)
  have nxt: "\<exists>n''. LIF_forward (?n'\<lparr>spikes := s\<rparr>) = Inr n'' \<and>
                  spikes n'' ! j = (threshold (params n) \<le> v ?n' ! j)" for s
  proof -
    have l: "length (I (?n'\<lparr>spikes := s\<rparr>)) = length (v (?n'\<lparr>spikes := s\<rparr>))"
      using len' by simp
    have "j < length (v (?n'\<lparr>spikes := s\<rparr>))"
      using len' assms(2) by simp
    then have "spikes (fire (?n'\<lparr>spikes := s\<rparr>)) ! j = (threshold (params n) \<le> v ?n' ! j)"
      unfolding fire_spikes by (simp add: fire_params)
    then show ?thesis
      unfolding LIF_forward_same_shape [OF l] by simp
  qed
  show ?thesis
    using fwd sp vj nxt by blast
qed

theorem LIF_forward_spiking_neuron_witness:
  "length (I \<lparr>pop_size = 1, iteration = 1, params = EXC_CONFIG, v = [-50],
               spikes = [False], I = [5]\<rparr>) =
   length (v \<lparr>pop_size = 1, iteration = 1, params = EXC_CONFIG, v = [-50],
               spikes = [False], I = [5]\<rparr>) \<and>
   (0::nat) < length (v \<lparr>pop_size = 1, iteration = 1, params = EXC_CONFIG, v = [-50],
               spikes = [False], I = [5]\<rparr>) \<and>
   threshold EXC_CONFIG \<le> [-50] ! 0 \<and>
   (\<exists>n'. LIF_forward \<lparr>pop_size = 1, iteration = 1, params = EXC_CONFIG, v = [-50],
                        spikes = [False], I = [5]\<rparr> = Inr n' \<and>
         spikes n' ! 0 \<and> v n' ! 0 = -64)"
  using LIF_forward_spiking_neuron
    [of "\<lparr>pop_size = 1, iteration = 1, params = EXC_CONFIG, v = [-50],
          spikes = [False], I = [5]\<rparr>" 0]
  by (auto simp add: EXC_CONFIG_def)

section \<open>Properties of the weight clip\<close>

lemma clip_clip: "clip (clip x lo hi) lo hi = clip x lo hi"
  by (simp add: clip_def min_def max_def)

lemma clip_within: "lo \<le> x \<Longrightarrow> x \<le> hi \<Longrightarrow> clip x lo hi = x"
  by (simp add: clip_def min_def max_def)

text \<open>
  C6. For every weight matrix and every pair of bounds, \<^verbatim>\<open>WeightClip.forward\<close> applied
  twice gives the matrix it gives applied once, and it leaves a matrix whose entries
  all lie within the bounds as it is.
\<close>

theorem WeightClip_forward_idempotent:
  "WeightClip_forward c (WeightClip_forward c A) = WeightClip_forward c A \<and>
   (list_all (list_all (\<lambda>x. w_min c \<le> x \<and> x \<le> w_max c)) A \<longrightarrow> WeightClip_forward c A = A)"
proof
  show "WeightClip_forward c (WeightClip_forward c A) = WeightClip_forward c A"
    by (simp add: WeightClip_forward_def clip_clip)
  show "list_all (list_all (\<lambda>x. w_min c \<le> x \<and> x \<le> w_max c)) A \<longrightarrow> WeightClip_forward c A = A"
  proof
    assume b: "list_all (list_all (\<lambda>x. w_min c \<le> x \<and> x \<le> w_max c)) A"
    have "map (\<lambda>x. clip x (w_min c) (w_max c)) row = row" if "row \<in> set A" for row
      using b that by (intro map_idI) (auto simp add: list_all_iff clip_within)
    then show "WeightClip_forward c A = A"
      unfolding WeightClip_forward_def by (rule map_idI)
  qed
qed

theorem WeightClip_forward_idempotent_witness:
  "list_all (list_all (\<lambda>x. w_min \<lparr>w_min = 0, w_max = 1\<rparr> \<le> x \<and> x \<le> w_max \<lparr>w_min = 0, w_max = 1\<rparr>))
     [[1 / 2, 0], [1, 1 / 4]] \<and>
   WeightClip_forward \<lparr>w_min = 0, w_max = 1\<rparr> [[1 / 2, 0], [1, 1 / 4]] = [[1 / 2, 0], [1, 1 / 4]] \<and>
   WeightClip_forward \<lparr>w_min = 0, w_max = 1\<rparr> [[2, -1], [1 / 2, 3]] = [[1, 0], [1 / 2, 1]] \<and>
   WeightClip_forward \<lparr>w_min = 0, w_max = 1\<rparr> [[1, 0], [1 / 2, 1]] = [[1, 0], [1 / 2, 1]]"
  using WeightClip_forward_idempotent [of "\<lparr>w_min = 0, w_max = 1\<rparr>" "[[1 / 2, 0], [1, 1 / 4]]"]
    WeightClip_forward_idempotent [of "\<lparr>w_min = 0, w_max = 1\<rparr>" "[[2, -1], [1 / 2, 3]]"]
  by (simp add: WeightClip_forward_def clip_def)

section \<open>Properties of the competition\<close>

text \<open>
  C3, at a failing input. With threshold \<open>-55\<close>, \<open>v_reset = -65\<close> and \<open>k = 1\<close>, the
  potentials \<open>[-50, -52, -60]\<close> have two candidates. The step keeps the first, resets the
  second, and also resets the third neuron, which was below the threshold: its entry of
  \<open>will_spike_v\<close> is \<open>0\<close>, below the least retained margin \<open>5\<close>.
\<close>

theorem KWTA_forward_resets_subthreshold_neuron:
  "KWTA_forward \<lparr>k = Some 1\<rparr>
     \<lparr>pop_size = 3, iteration = 1, params = EXC_CONFIG, v = [-50, -52, -60],
      spikes = [False, False, False], I = [0, 0, 0]\<rparr> =
   Inr \<lparr>pop_size = 3, iteration = 1, params = EXC_CONFIG, v = [-50, -65, -65],
         spikes = [False, False, False], I = [0, 0, 0]\<rparr>"
  by (simp add: KWTA_forward_def topk_def EXC_CONFIG_def)

lemma filter_id_map: "filter (\<lambda>s. s) (map P xs) = map P (filter P xs)"
  by (induction xs) simp_all

lemma topk_zero: "topk xs 0 = Inr []"
  by (simp add: topk_def)

text \<open>
  C10. \<^verbatim>\<open>KWTA.initialize\<close> accepts \<open>k = 0\<close>; with \<open>k = 0\<close>, every population state with
  at least one neuron at or above the threshold makes \<^verbatim>\<open>KWTA.forward\<close> raise the
  RuntimeError of the minimum of an empty top-k result.
\<close>

theorem KWTA_forward_k_zero_raises:
  "KWTA_initialize (Some 0) = Inr \<lparr>k = Some 0\<rparr> \<and>
   ((\<exists>x\<in>set (v n). threshold (params n) \<le> x) \<longrightarrow>
      KWTA_forward \<lparr>k = Some 0\<rparr> n = Inl RuntimeError)"
proof (intro conjI impI)
  show "KWTA_initialize (Some 0) = Inr \<lparr>k = Some 0\<rparr>"
    by (simp add: KWTA_initialize_def)
next
  assume "\<exists>x\<in>set (v n). threshold (params n) \<le> x"
  then have "filter (\<lambda>x. threshold (params n) \<le> x) (v n) \<noteq> []"
    by (simp add: filter_empty_conv)
  then have "0 < length (filter (\<lambda>x. threshold (params n) \<le> x) (v n))"
    by simp
  moreover have "length (filter (\<lambda>s. s) (map (\<lambda>x. threshold (params n) \<le> x) (v n))) =
      length (filter (\<lambda>x. threshold (params n) \<le> x) (v n))"
    unfolding filter_id_map by simp
  ultimately have "\<not> int (length (filter (\<lambda>s. s) (map (\<lambda>x. threshold (params n) \<le> x) (v n)))) \<le> 0"
    by linarith
  then show "KWTA_forward \<lparr>k = Some 0\<rparr> n = Inl RuntimeError"
    unfolding KWTA_forward_def Let_def by (simp add: topk_zero del: filter_map)
qed

theorem KWTA_forward_k_zero_raises_witness:
  "(\<exists>x\<in>set (v \<lparr>pop_size = 2, iteration = 1, params = EXC_CONFIG, v = [-50, -60],
                    spikes = [False, False], I = [0, 0]\<rparr>).
      threshold (params \<lparr>pop_size = 2, iteration = 1, params = EXC_CONFIG, v = [-50, -60],
                    spikes = [False, False], I = [0, 0]\<rparr>) \<le> x) \<and>
   KWTA_forward \<lparr>k = Some 0\<rparr>
     \<lparr>pop_size = 2, iteration = 1, params = EXC_CONFIG, v = [-50, -60],
      spikes = [False, False], I = [0, 0]\<rparr> = Inl RuntimeError"
proof -
  have h: "\<exists>x\<in>set (v \<lparr>pop_size = 2, iteration = 1, params = EXC_CONFIG, v = [-50, -60],
                    spikes = [False, False], I = [0, 0]\<rparr>).
      threshold (params \<lparr>pop_size = 2, iteration = 1, params = EXC_CONFIG, v = [-50, -60],
                    spikes = [False, False], I = [0, 0]\<rparr>) \<le> x"
    by (simp add: EXC_CONFIG_def)
  show ?thesis
    using h KWTA_forward_k_zero_raises
      [of "\<lparr>pop_size = 2, iteration = 1, params = EXC_CONFIG, v = [-50, -60],
            spikes = [False, False], I = [0, 0]\<rparr>"]
    by blast
qed

lemma desc_nth_mono:
  assumes "i \<le> j" and "j < length xs"
  shows "rev (sort xs) ! j \<le> (rev (sort xs) ! i :: real)"
proof -
  have "sort xs ! (length xs - Suc j) \<le> sort xs ! (length xs - Suc i)"
    using assms by (intro sorted_nth_mono) simp_all
  then show ?thesis
    using assms by (simp add: rev_nth)
qed

lemma length_filter_sort_desc:
  "length (filter P (rev (sort xs))) = length (filter P (xs :: real list))"
proof -
  have "mset (filter P (rev (sort xs))) = mset (filter P xs)"
    by simp
  then show ?thesis
    by (rule mset_eq_length)
qed

lemma kth_largest_above:
  assumes "1 \<le> j" and "j \<le> length xs"
  shows "length (filter (\<lambda>y. kth_largest j xs < y) xs) < j"
proof -
  let ?D = "rev (sort xs)"
  let ?m = "kth_largest j xs"
  have "filter (\<lambda>y. ?m < y) (drop (j - 1) ?D) = []"
  proof -
    have "\<not> ?m < y" if mem: "y \<in> set (drop (j - 1) ?D)" for y
    proof -
      obtain i where i: "i < length (drop (j - 1) ?D)" "y = drop (j - 1) ?D ! i"
        using mem unfolding in_set_conv_nth by blast
      then have "y = ?D ! (j - 1 + i)" and "j - 1 + i < length xs"
        using assms by simp_all
      then have "y \<le> ?D ! (j - 1)"
        using desc_nth_mono [of "j - 1" "j - 1 + i" xs] by simp
      then show ?thesis
        by (simp add: kth_largest_def)
    qed
    then show ?thesis
      by (simp add: filter_empty_conv)
  qed
  then have "filter (\<lambda>y. ?m < y) ?D = filter (\<lambda>y. ?m < y) (take (j - 1) ?D)"
    using filter_append [of "\<lambda>y. ?m < y" "take (j - 1) ?D" "drop (j - 1) ?D"] by simp
  then have "length (filter (\<lambda>y. ?m < y) ?D) \<le> length (take (j - 1) ?D)"
    by (metis length_filter_le)
  also have "\<dots> < j"
    using assms by simp
  finally show ?thesis
    by (simp add: length_filter_sort_desc)
qed

lemma kth_largest_at_least:
  assumes "1 \<le> j" and "j \<le> length xs"
  shows "j \<le> length (filter (\<lambda>y. kth_largest j xs \<le> y) xs)"
proof -
  let ?D = "rev (sort xs)"
  let ?m = "kth_largest j xs"
  have "filter (\<lambda>y. ?m \<le> y) (take j ?D) = take j ?D"
  proof -
    have "?m \<le> y" if mem: "y \<in> set (take j ?D)" for y
    proof -
      obtain i where i: "i < length (take j ?D)" "y = take j ?D ! i"
        using mem unfolding in_set_conv_nth by blast
      then have "y = ?D ! i" and "i \<le> j - 1" and "j - 1 < length xs"
        using assms by simp_all
      then show ?thesis
        using desc_nth_mono [of i "j - 1" xs] by (simp add: kth_largest_def)
    qed
    then show ?thesis
      by (simp add: filter_id_conv)
  qed
  moreover have "length (filter (\<lambda>y. ?m \<le> y) (take j ?D)) \<le> length (filter (\<lambda>y. ?m \<le> y) ?D)"
    using filter_append [of "\<lambda>y. ?m \<le> y" "take j ?D" "drop j ?D"] by simp
  ultimately have "length (take j ?D) \<le> length (filter (\<lambda>y. ?m \<le> y) ?D)"
    by simp
  then show ?thesis
    using assms by (simp add: length_filter_sort_desc)
qed

lemma length_filter_ge_split:
  "length (filter (\<lambda>y. m \<le> y) xs) =
   length (filter (\<lambda>y. m < y) xs) + length (filter (\<lambda>y. y = m) (xs :: real list))"
  by (induction xs) auto


lemma will_spike_v_eq:
  "map2 (\<lambda>s x. of_bool s * (x - th)) (map (\<lambda>x. th \<le> x) xs) xs =
   map (\<lambda>x. if th \<le> x then x - th else (0::real)) xs"
  by (induction xs) simp_all

lemma mset_will_spike_v:
  "mset (map (\<lambda>x. if th \<le> x then x - th else (0::real)) xs) =
   mset (replicate (length (filter (\<lambda>x. \<not> th \<le> x) xs)) 0) +
   mset (map (\<lambda>x. x - th) (filter (\<lambda>x. th \<le> x) xs))"
  by (induction xs) simp_all

lemma sort_will_spike_v:
  "sort (map (\<lambda>x. if th \<le> x then x - th else (0::real)) xs) =
   replicate (length (filter (\<lambda>x. \<not> th \<le> x) xs)) 0 @
   sort (map (\<lambda>x. x - th) (filter (\<lambda>x. th \<le> x) xs))"
proof (rule properties_for_sort)
  show "mset (replicate (length (filter (\<lambda>x. \<not> th \<le> x) xs)) 0 @
          sort (map (\<lambda>x. x - th) (filter (\<lambda>x. th \<le> x) xs))) =
        mset (map (\<lambda>x. if th \<le> x then x - th else (0::real)) xs)"
    unfolding mset_will_spike_v by simp
  show "sorted (replicate (length (filter (\<lambda>x. \<not> th \<le> x) xs)) (0::real) @
          sort (map (\<lambda>x. x - th) (filter (\<lambda>x. th \<le> x) xs)))"
    by (auto simp add: sorted_append)
qed

lemma tensor_min_desc:
  "sorted_wrt (\<lambda>a b. b \<le> a) (x # xs) \<Longrightarrow> tensor_min (x # xs) = Inr (last (x # xs))"
proof (induction xs arbitrary: x)
  case Nil
  then show ?case by simp
next
  case (Cons y ys)
  then have "min y x = y" and "sorted_wrt (\<lambda>a b. b \<le> a) (y # ys)"
    by simp_all
  then show ?case
    using Cons.IH [of y] by simp
qed

lemma sorted_desc: "sorted_wrt (\<lambda>a b. b \<le> a) (rev (sort (xs :: real list)))"
  by (simp add: sorted_wrt_rev)

lemma topk_min_margins:
  assumes "1 \<le> kk" and "kk < int (length (filter (\<lambda>x. th \<le> x) xs))"
  shows "\<exists>ks. topk (map (\<lambda>x. if th \<le> x then x - th else 0) xs) kk = Inr ks \<and>
           tensor_min ks = Inr (kth_largest (nat kk) (map (\<lambda>x. x - th) (filter (\<lambda>x. th \<le> x) xs)))"
proof -
  let ?M = "map (\<lambda>x. x - th) (filter (\<lambda>x. th \<le> x) xs)"
  let ?z = "length (filter (\<lambda>x. \<not> th \<le> x) xs)"
  let ?ks = "take (nat kk) (rev (sort ?M))"
  have n: "nat kk \<le> length (rev (sort ?M))" "nat kk \<noteq> 0"
    using assms by simp_all
  have "length (filter (\<lambda>x. th \<le> x) xs) \<le> length xs"
    by (rule length_filter_le)
  then have "\<not> int (length xs) < kk"
    using assms by linarith
  then have t: "topk (map (\<lambda>x. if th \<le> x then x - th else 0) xs) kk = Inr ?ks"
    using assms n by (simp add: topk_def sort_will_spike_v)
  have ne: "?ks \<noteq> []"
    using n by (metis length_0_conv length_take min.absorb2 take_eq_Nil)
  have sd: "sorted_wrt (\<lambda>a b. b \<le> a) ?ks"
    using sorted_desc [of ?M] by (rule sorted_wrt_take)
  obtain y ys where ks: "?ks = y # ys"
    using ne by (cases ?ks) simp_all
  have "tensor_min ?ks = Inr (last ?ks)"
    using sd unfolding ks by (rule tensor_min_desc)
  also have "last ?ks = rev (sort ?M) ! (nat kk - 1)"
    using n ne by (simp add: last_conv_nth)
  finally show ?thesis
    using t by (simp add: kth_largest_def)
qed


lemma length_margins: "length (margins n) = length (filter (\<lambda>x. threshold (params n) \<le> x) (v n))"
  by (simp add: margins_def)

lemma candidate_count:
  "length (filter (\<lambda>s. s) (map (\<lambda>x. threshold (params n) \<le> x) (v n))) = length (margins n)"
  unfolding filter_id_map length_margins by simp

lemma KWTA_forward_no_suppression:
  assumes "k b = Some kk" and "int (length (margins n)) \<le> kk"
  shows "KWTA_forward b n = Inr n"
  using assms unfolding KWTA_forward_def Let_def candidate_count by simp

lemma KWTA_forward_raises:
  assumes "k b = Some kk" and "kk < int (length (margins n))" and "kk < 1"
  shows "\<exists>e. KWTA_forward b n = Inl e"
proof (cases "kk < 0")
  case True
  then show ?thesis
    using assms unfolding KWTA_forward_def Let_def candidate_count by (simp add: topk_def)
next
  case False
  then have "kk = 0"
    using assms by simp
  then show ?thesis
    using assms unfolding KWTA_forward_def Let_def candidate_count by (simp add: topk_zero)
qed

lemma map2_reset:
  "map2 (\<lambda>w x. if w < m then r else x) (map f xs) xs = map (\<lambda>x. if f x < m then r else x) xs"
  by (induction xs) simp_all

lemma KWTA_forward_suppression:
  assumes "k b = Some kk" and "kk < int (length (margins n))" and "1 \<le> kk"
  shows "KWTA_forward b n =
     Inr (n\<lparr>v := map (\<lambda>x. if (if threshold (params n) \<le> x then x - threshold (params n) else 0)
                               < kth_largest (nat kk) (margins n)
                            then v_reset (params n) else x) (v n)\<rparr>)"
proof -
  obtain ks where ks:
    "topk (map (\<lambda>x. if threshold (params n) \<le> x then x - threshold (params n) else 0) (v n)) kk = Inr ks"
    "tensor_min ks = Inr (kth_largest (nat kk) (margins n))"
    using topk_min_margins [of kk "threshold (params n)" "v n"] assms
    unfolding margins_def by auto
  show ?thesis
    using assms(1,2)
    unfolding KWTA_forward_def Let_def candidate_count will_spike_v_eq
    by (simp add: ks map2_reset)
qed


lemma spikes_after_reset:
  assumes "r < th"
  shows "(th \<le> (if (if th \<le> x then x - th else 0) < m then r else x)) =
         (th \<le> x \<and> m \<le> x - (th::real))"
  using assms by auto

lemma count_retained:
  "length (filter (\<lambda>s. s) (map (\<lambda>x. th \<le> x \<and> m \<le> x - th) xs)) =
   length (filter (\<lambda>y. m \<le> y) (map (\<lambda>x. x - th) (filter (\<lambda>x. th \<le> x) xs)))"
  by (induction xs) simp_all

text \<open>
  C4, as stated, fails for a population whose reset value is not below its threshold.
  With threshold \<open>-55\<close>, \<open>v_reset = -50\<close> and \<open>k = 1\<close>, the potentials \<open>[-40, -45, -52]\<close>
  are three candidates with margins \<open>15\<close>, \<open>10\<close> and \<open>3\<close>, no two alike. The step resets
  the second and the third to \<open>-50\<close>, which is still at or above the threshold, so
  \<^verbatim>\<open>LIF._fire\<close> registers three spikes.
\<close>

theorem KWTA_reset_above_threshold_still_spikes:
  "KWTA_forward \<lparr>k = Some 1\<rparr>
     \<lparr>pop_size = 3, iteration = 1,
      params = \<lparr>v_reset = -50, v_rest = -65, tau = 10, R = 2, threshold = -55\<rparr>,
      v = [-40, -45, -52], spikes = [False, False, False], I = [0, 0, 0]\<rparr> =
   Inr \<lparr>pop_size = 3, iteration = 1,
         params = \<lparr>v_reset = -50, v_rest = -65, tau = 10, R = 2, threshold = -55\<rparr>,
         v = [-40, -50, -50], spikes = [False, False, False], I = [0, 0, 0]\<rparr> \<and>
   margins \<lparr>pop_size = 3, iteration = 1,
      params = \<lparr>v_reset = -50, v_rest = -65, tau = 10, R = 2, threshold = -55\<rparr>,
      v = [-40, -45, -52], spikes = [False, False, False], I = [0, 0, 0]\<rparr> = [15, 10, 3] \<and>
   kth_largest 1 [15, 10, 3] = 15 \<and>
   spike_count (fire \<lparr>pop_size = 3, iteration = 1,
         params = \<lparr>v_reset = -50, v_rest = -65, tau = 10, R = 2, threshold = -55\<rparr>,
         v = [-40, -50, -50], spikes = [False, False, False], I = [0, 0, 0]\<rparr>) = 3 \<and>
   (1::nat) < 3"
  by (simp add: KWTA_forward_def topk_def margins_def kth_largest_def spike_count_def fire_eq)

text \<open>
  C4, amended. Let the reset value lie below the threshold, and let \<^verbatim>\<open>KWTA.forward\<close> return.
  When the number of candidates is at most \<open>k\<close> the population is unchanged (no
  suppression), and the spikes \<^verbatim>\<open>LIF._fire\<close> then registers are the candidates. Otherwise
  \<open>k\<close> is at least 1 and the neurons that spike afterwards are exactly the candidates whose
  margin is at least the \<open>k\<close>-th largest margin: fewer than \<open>k\<close> plus the number of
  candidates at that margin, and exactly \<open>k\<close> when no two candidates share it.
\<close>

theorem KWTA_forward_spike_count:
  assumes "v_reset (params n) < threshold (params n)"
    and "k b = Some kk" and "KWTA_forward b n = Inr n'"
  shows "(int (length (margins n)) \<le> kk \<longrightarrow>
            n' = n \<and> spike_count (fire n') = length (margins n)) \<and>
         (kk < int (length (margins n)) \<longrightarrow>
            1 \<le> kk \<and>
            spikes (fire n') =
              map (\<lambda>x. threshold (params n) \<le> x \<and>
                        kth_largest (nat kk) (margins n) \<le> x - threshold (params n)) (v n) \<and>
            spike_count (fire n') <
              nat kk + length (filter (\<lambda>y. y = kth_largest (nat kk) (margins n)) (margins n)) \<and>
            (length (filter (\<lambda>y. y = kth_largest (nat kk) (margins n)) (margins n)) \<le> 1 \<longrightarrow>
               spike_count (fire n') = nat kk))"
proof (intro conjI impI)
  assume le: "int (length (margins n)) \<le> kk"
  show eq: "n' = n"
    using KWTA_forward_no_suppression [OF assms(2) le] assms(3) by simp
  show "spike_count (fire n') = length (margins n)"
    unfolding eq spike_count_def fire_spikes candidate_count by simp
next
  assume gt: "kk < int (length (margins n))"
  let ?m = "kth_largest (nat kk) (margins n)"
  let ?th = "threshold (params n)"
  show k1: "1 \<le> kk"
  proof (rule ccontr)
    assume "\<not> 1 \<le> kk"
    then have "\<exists>e. KWTA_forward b n = Inl e"
      using KWTA_forward_raises [OF assms(2) gt] by simp
    then show False
      using assms(3) by auto
  qed
  have n': "n' = n\<lparr>v := map (\<lambda>x. if (if ?th \<le> x then x - ?th else 0) < ?m
                            then v_reset (params n) else x) (v n)\<rparr>"
    using KWTA_forward_suppression [OF assms(2) gt k1] assms(3) by simp
  show sp: "spikes (fire n') = map (\<lambda>x. ?th \<le> x \<and> ?m \<le> x - ?th) (v n)"
    unfolding fire_spikes n' by (simp add: spikes_after_reset [OF assms(1)])
  have j: "1 \<le> nat kk" "nat kk \<le> length (margins n)"
    using k1 gt by simp_all
  have cnt: "spike_count (fire n') = length (filter (\<lambda>y. ?m \<le> y) (margins n))"
    unfolding spike_count_def sp count_retained margins_def by simp
  have split: "length (filter (\<lambda>y. ?m \<le> y) (margins n)) =
      length (filter (\<lambda>y. ?m < y) (margins n)) + length (filter (\<lambda>y. y = ?m) (margins n))"
    by (rule length_filter_ge_split)
  show "spike_count (fire n') < nat kk + length (filter (\<lambda>y. y = ?m) (margins n))"
    using kth_largest_above [OF j] unfolding cnt split by simp
  assume "length (filter (\<lambda>y. y = ?m) (margins n)) \<le> 1"
  then show "spike_count (fire n') = nat kk"
    using kth_largest_above [OF j] kth_largest_at_least [OF j] unfolding cnt split by simp
qed

theorem KWTA_forward_spike_count_witness:
  "v_reset (params \<lparr>pop_size = 3, iteration = 1, params = EXC_CONFIG, v = [-50, -50, -60],
                     spikes = [False, False, False], I = [0, 0, 0]\<rparr>) <
   threshold (params \<lparr>pop_size = 3, iteration = 1, params = EXC_CONFIG, v = [-50, -50, -60],
                     spikes = [False, False, False], I = [0, 0, 0]\<rparr>) \<and>
   k \<lparr>k = Some 1\<rparr> = Some 1 \<and>
   KWTA_forward \<lparr>k = Some 1\<rparr>
     \<lparr>pop_size = 3, iteration = 1, params = EXC_CONFIG, v = [-50, -50, -60],
      spikes = [False, False, False], I = [0, 0, 0]\<rparr> =
   Inr \<lparr>pop_size = 3, iteration = 1, params = EXC_CONFIG, v = [-50, -50, -65],
         spikes = [False, False, False], I = [0, 0, 0]\<rparr> \<and>
   1 < int (length (margins \<lparr>pop_size = 3, iteration = 1, params = EXC_CONFIG, v = [-50, -50, -60],
                     spikes = [False, False, False], I = [0, 0, 0]\<rparr>)) \<and>
   kth_largest (nat 1) (margins \<lparr>pop_size = 3, iteration = 1, params = EXC_CONFIG,
                     v = [-50, -50, -60], spikes = [False, False, False], I = [0, 0, 0]\<rparr>) = 5 \<and>
   spikes (fire \<lparr>pop_size = 3, iteration = 1, params = EXC_CONFIG, v = [-50, -50, -65],
         spikes = [False, False, False], I = [0, 0, 0]\<rparr>) = [True, True, False] \<and>
   spike_count (fire \<lparr>pop_size = 3, iteration = 1, params = EXC_CONFIG, v = [-50, -50, -65],
         spikes = [False, False, False], I = [0, 0, 0]\<rparr>) = 2"
proof -
  have h1: "v_reset (params \<lparr>pop_size = 3, iteration = 1, params = EXC_CONFIG, v = [-50, -50, -60],
                     spikes = [False, False, False], I = [0, 0, 0]\<rparr>) <
   threshold (params \<lparr>pop_size = 3, iteration = 1, params = EXC_CONFIG, v = [-50, -50, -60],
                     spikes = [False, False, False], I = [0, 0, 0]\<rparr>)"
    by (simp add: EXC_CONFIG_def)
  have h2: "k \<lparr>k = Some 1\<rparr> = Some 1"
    by simp
  have h3: "KWTA_forward \<lparr>k = Some 1\<rparr>
     \<lparr>pop_size = 3, iteration = 1, params = EXC_CONFIG, v = [-50, -50, -60],
      spikes = [False, False, False], I = [0, 0, 0]\<rparr> =
   Inr \<lparr>pop_size = 3, iteration = 1, params = EXC_CONFIG, v = [-50, -50, -65],
         spikes = [False, False, False], I = [0, 0, 0]\<rparr>"
    by (simp add: KWTA_forward_def topk_def EXC_CONFIG_def)
  have m: "margins \<lparr>pop_size = 3, iteration = 1, params = EXC_CONFIG, v = [-50, -50, -60],
                     spikes = [False, False, False], I = [0, 0, 0]\<rparr> = [5, 5]"
    by (simp add: margins_def EXC_CONFIG_def)
  show ?thesis
    using KWTA_forward_spike_count [OF h1 h2 h3] h1 h2 h3
    unfolding m by (simp add: kth_largest_def spike_count_def fire_eq EXC_CONFIG_def)
qed

section \<open>Configuration checks\<close>

text \<open>
  C5, as stated, fails. The bounds \<open>w_min = -1 < w_max = 1\<close> are refused by
  \<^verbatim>\<open>WeightClip.initialize\<close>; \<^verbatim>\<open>KWTA.initialize\<close> accepts \<open>k = 0\<close>, and \<open>k = 5\<close> for a
  population of two neurons; \<^verbatim>\<open>Input.initialize\<close> accepts an empty waveform.
\<close>

theorem initialize_checks_differ:
  "(-1::real) < 1 \<and>
   WeightClip_initialize (Some (-1)) (Some 1) = Inl AssertionError \<and>
   KWTA_initialize (Some 0) = Inr \<lparr>k = Some 0\<rparr> \<and>
   KWTA_initialize (Some 5) = Inr \<lparr>k = Some 5\<rparr> \<and>
   Input_initialize (Some []) (new_population 2 EXC_CONFIG) =
     Inr (\<lparr>input = Some []\<rparr>, new_population 2 EXC_CONFIG)"
  by (simp add: WeightClip_initialize_def KWTA_initialize_def Input_initialize_def
      new_population_def reset_inputs_def LIF_initialize_def)

text \<open>
  C5, amended. \<^verbatim>\<open>WeightClip.initialize\<close> fails at initialize time exactly when
  \<open>0 <= w_min < w_max\<close> does not hold of the bounds (defaults 0 and 1): so it fails for
  every \<open>w_min >= w_max\<close>, and succeeds for every \<open>0 <= w_min < w_max\<close>.
  \<^verbatim>\<open>KWTA.initialize\<close> and \<^verbatim>\<open>Input.initialize\<close> check nothing and succeed for every \<open>k\<close> and
  every waveform. A waveform shorter than the run is met at step time: \<^verbatim>\<open>Input.forward\<close>
  raises an IndexError at an iteration beyond the length of the waveform.
\<close>

theorem initialize_checks:
  "((\<exists>c. WeightClip_initialize lo hi = Inr c) =
      (0 \<le> (case lo of None \<Rightarrow> 0 | Some x \<Rightarrow> x) \<and>
       (case lo of None \<Rightarrow> 0 | Some x \<Rightarrow> x) < (case hi of None \<Rightarrow> 1 | Some x \<Rightarrow> x))) \<and>
   ((WeightClip_initialize lo hi = Inl AssertionError) =
      (\<not> (0 \<le> (case lo of None \<Rightarrow> 0 | Some x \<Rightarrow> x) \<and>
       (case lo of None \<Rightarrow> 0 | Some x \<Rightarrow> x) < (case hi of None \<Rightarrow> 1 | Some x \<Rightarrow> x)))) \<and>
   KWTA_initialize kopt = Inr \<lparr>k = kopt\<rparr> \<and>
   Input_initialize wave n = Inr (\<lparr>input = wave\<rparr>, reset_inputs n) \<and>
   (input b = Some rows \<and> int (length rows) < iteration n \<longrightarrow>
      Input_forward b n = Inl IndexError)"
  by (auto simp add: WeightClip_initialize_def KWTA_initialize_def Input_initialize_def
      Input_forward_def Let_def reset_inputs_def)

theorem initialize_checks_witness:
  "WeightClip_initialize (Some 0) (Some 1) = Inr \<lparr>w_min = 0, w_max = 1\<rparr> \<and>
   WeightClip_initialize (Some 1) (Some 1) = Inl AssertionError \<and>
   WeightClip_initialize (Some 2) (Some 1) = Inl AssertionError \<and>
   input \<lparr>input = Some [[0, 0]]\<rparr> = Some [[0, 0]] \<and>
   int (length [[0, 0 :: real]]) < iteration ((new_population 2 EXC_CONFIG)\<lparr>iteration := 2\<rparr>) \<and>
   Input_forward \<lparr>input = Some [[0, 0]]\<rparr> ((new_population 2 EXC_CONFIG)\<lparr>iteration := 2\<rparr>) =
     Inl IndexError \<and>
   (\<exists>n'. Input_forward \<lparr>input = Some [[0, 0]]\<rparr> ((new_population 2 EXC_CONFIG)\<lparr>iteration := 1\<rparr>) =
     Inr n')"
  using initialize_checks [of "Some 0" "Some 1" "Some 0" "Some [[0, 0]]"
      "(new_population 2 EXC_CONFIG)\<lparr>iteration := 2\<rparr>" "\<lparr>input = Some [[0, 0]]\<rparr>" "[[0, 0]]"]
    initialize_checks [of "Some 1" "Some 1"] initialize_checks [of "Some 2" "Some 1"]
  by (simp add: WeightClip_initialize_def Input_forward_def Let_def reset_inputs_def
      new_population_def LIF_initialize_def iadd_def)

section \<open>A network at rest\<close>

lemma new_population_at_rest:
  "v_rest cfg < threshold cfg \<Longrightarrow> at_rest (new_population sz cfg)"
  by (simp add: at_rest_def new_population_def LIF_initialize_def reset_inputs_def)

lemma at_rest_iteration: "at_rest (n\<lparr>iteration := i\<rparr>) = at_rest n"
  by (simp add: at_rest_def)

lemma map2_replicate:
  "map2 f (replicate m a) (replicate m b) = replicate m (f a b)"
  by (induction m) simp_all

lemma LIF_forward_at_rest:
  assumes "at_rest n"
  shows "LIF_forward n = Inr n"
proof -
  have f: "fire n = n"
    using assms by (simp add: fire_eq at_rest_def)
  have len: "length (I n) = length (v n)"
    using assms by (simp add: at_rest_def)
  have "map2 (\<lambda>x i. x + (v_rest (params n) - x + R (params n) * i) / tau (params n)) (v n) (I n) = v n"
    using assms by (simp add: at_rest_def map2_replicate)
  then show ?thesis
    unfolding LIF_forward_same_shape [OF len] f by simp
qed

lemma Input_forward_at_rest:
  assumes "at_rest n" and "input b = Some rows" and "zero_waveform steps (pop_size n) rows"
    and "1 \<le> iteration n" and "iteration n \<le> int steps"
  shows "Input_forward b n = Inr n"
proof -
  have r: "reset_inputs n = n"
    using assms(1) by (simp add: reset_inputs_def at_rest_def)
  have idx: "nat (iteration n - 1) < length rows"
    using assms(3,4,5) unfolding zero_waveform_def by linarith
  then have "rows ! nat (iteration n - 1) \<in> set rows"
    by simp
  then have row: "rows ! nat (iteration n - 1) = replicate (pop_size n) 0"
    using assms(3) by (simp add: zero_waveform_def list_all_iff)
  have a: "iadd (I n) (replicate (pop_size n) 0) = Inr (I n)"
    using assms(1) by (simp add: iadd_def at_rest_def map2_replicate)
  have "\<not> iteration n - 1 < 0" and "iteration n - 1 < int (length rows)"
    using assms(4) idx by simp_all
  then show ?thesis
    unfolding Input_forward_def Let_def r using assms(2) by (simp add: row a)
qed

lemma dot_zero: "sum_list (map2 (\<lambda>a b. a * b) row (replicate m (0::real))) = 0"
proof (induction row arbitrary: m)
  case Nil
  then show ?case by simp
next
  case (Cons a row)
  then show ?case by (cases m) simp_all
qed

lemma matmul_zero:
  assumes "list_all (\<lambda>row. length row = m) A"
  shows "matmul A (replicate m 0) = Inr (replicate (length A) 0)"
proof -
  have "map (\<lambda>row. sum_list (map2 (\<lambda>a b. a * b) row (replicate m 0))) A = replicate (length A) (0::real)"
    by (simp add: dot_zero map_replicate_const)
  then show ?thesis
    using assms by (simp add: matmul_def)
qed

lemma add_inputs_at_rest:
  assumes "list_all (\<lambda>s. src s < length (pops net) \<and> length (W s) = length cur \<and>
              list_all (\<lambda>row. length row = pop_size (pops net ! src s)) (W s)) ss"
    and "list_all at_rest (pops net)"
  shows "add_inputs net sign ss cur = Inr cur"
  using assms(1)
proof (induction ss)
  case Nil
  then show ?case by simp
next
  case (Cons s ss)
  then have s: "src s < length (pops net)" "length (W s) = length cur"
      "list_all (\<lambda>row. length row = pop_size (pops net ! src s)) (W s)"
    by simp_all
  have "at_rest (pops net ! src s)"
    using assms(2) s(1) by (simp add: list_all_length)
  then have "map of_bool (spikes (pops net ! src s)) = replicate (pop_size (pops net ! src s)) (0::real)"
    by (simp add: at_rest_def)
  then have g: "get_presynaptic_inputs net s = Inr (replicate (length cur) 0)"
    unfolding get_presynaptic_inputs_def using matmul_zero [OF s(3)] s(2) by simp
  have z: "map2 (\<lambda>x y. x + y) cur (replicate (length cur) (0::real)) = cur"
    by (rule nth_equalityI) simp_all
  have a: "iadd cur (replicate (length cur) 0) = Inr cur"
    by (simp add: iadd_def z)
  show ?case
    using Cons by (simp add: g a)
qed

lemma add_inputs_afferent_at_rest:
  assumes "list_all (well_shaped (pops net)) (syns net)" and "list_all at_rest (pops net)"
    and "j < length (pops net)"
  shows "add_inputs net sign (filter (\<lambda>s. dst s = j \<and> tag s = t) (syns net))
      (I (pops net ! j)) = Inr (I (pops net ! j))"
proof -
  have nj: "at_rest (pops net ! j)"
    using assms(2,3) by (simp add: list_all_length)
  then have len: "length (I (pops net ! j)) = pop_size (pops net ! j)"
    by (simp add: at_rest_def)
  have "list_all (\<lambda>s. src s < length (pops net) \<and> length (W s) = length (I (pops net ! j)) \<and>
              list_all (\<lambda>row. length row = pop_size (pops net ! src s)) (W s))
          (filter (\<lambda>s. dst s = j \<and> tag s = t) (syns net))"
    using assms(1) unfolding len
    by (auto simp add: list_all_iff well_shaped_def)
  then show ?thesis
    by (rule add_inputs_at_rest [OF _ assms(2)])
qed

lemma Synapse_forward_missing_tag:
  assumes "list_all (well_shaped (pops net)) (syns net)" and "list_all at_rest (pops net)"
    and "j < length (pops net)"
    and "\<not> carries_tag (syns net) GLUTAMATE \<or> \<not> carries_tag (syns net) GABA"
  shows "Synapse_forward net j = Inl KeyError"
  using assms(4)
  unfolding Synapse_forward_def afferent_synapses_def Let_def
  by (auto simp add: add_inputs_afferent_at_rest [OF assms(1,2,3)])

lemma Synapse_forward_at_rest:
  assumes "list_all (well_shaped (pops net)) (syns net)" and "list_all at_rest (pops net)"
    and "j < length (pops net)"
    and "carries_tag (syns net) GLUTAMATE \<and> carries_tag (syns net) GABA"
  shows "Synapse_forward net j = Inr (pops net ! j)"
  using assms(4)
  unfolding Synapse_forward_def afferent_synapses_def Let_def
  by (simp add: add_inputs_afferent_at_rest [OF assms(1,2,3)])

lemma run_behaviour_at_rest:
  assumes "list_all (well_shaped (pops net)) (syns net)" and "list_all at_rest (pops net)"
    and "quiet_action steps (pops net) a"
    and "list_all (\<lambda>n. 1 \<le> iteration n \<and> iteration n \<le> int steps) (pops net)"
    and "carries_tag (syns net) GLUTAMATE \<and> carries_tag (syns net) GABA"
  shows "run_behaviour a net = Inr net"
proof -
  have j: "fst a < length (pops net)"
    using assms(3) by (simp add: quiet_action_def)
  then have nj: "at_rest (pops net ! fst a)"
    and it: "1 \<le> iteration (pops net ! fst a)" "iteration (pops net ! fst a) \<le> int steps"
    using assms(2,4) by (simp_all add: list_all_length)
  have "(case snd a of
           InputB b \<Rightarrow> Input_forward b (pops net ! fst a)
         | SynapseB \<Rightarrow> Synapse_forward net (fst a)
         | LIFB \<Rightarrow> LIF_forward (pops net ! fst a)) = Inr (pops net ! fst a)"
  proof (cases "snd a")
    case (InputB b)
    then obtain rows where rows: "input b = Some rows"
        "zero_waveform steps (pop_size (pops net ! fst a)) rows"
      using assms(3) by (auto simp add: quiet_action_def split: option.splits)
    show ?thesis
      using Input_forward_at_rest [OF nj rows it] InputB by simp
  next
    case SynapseB
    then show ?thesis
      using Synapse_forward_at_rest [OF assms(1,2) j assms(5)] by simp
  next
    case LIFB
    then show ?thesis
      using LIF_forward_at_rest [OF nj] by simp
  qed
  then show ?thesis
    unfolding run_behaviour_def Let_def using j by simp
qed

lemma run_schedule_at_rest:
  assumes "list_all (well_shaped (pops net)) (syns net)" and "list_all at_rest (pops net)"
    and "list_all (quiet_action steps (pops net)) sched"
    and "list_all (\<lambda>n. 1 \<le> iteration n \<and> iteration n \<le> int steps) (pops net)"
    and "carries_tag (syns net) GLUTAMATE \<and> carries_tag (syns net) GABA"
  shows "run_schedule sched net = Inr net"
  using assms(3)
proof (induction sched)
  case Nil
  then show ?case by simp
next
  case (Cons a sched)
  then have "run_behaviour a net = Inr net"
    using run_behaviour_at_rest [OF assms(1,2) _ assms(4,5)] by simp
  then show ?case
    using Cons by simp
qed


lemma well_shaped_iteration:
  assumes "\<And>n. pop_size (g n) = pop_size n"
  shows "well_shaped (map g ps) = well_shaped ps"
  using assms by (auto simp add: well_shaped_def fun_eq_iff)

lemma quiet_action_iteration:
  assumes "\<And>n. pop_size (g n) = pop_size n"
  shows "quiet_action steps (map g ps) = quiet_action steps ps"
  using assms
  by (auto simp add: quiet_action_def fun_eq_iff split: behaviour.splits option.splits)

lemma simulate_iteration_at_rest:
  assumes "list_all (well_shaped (pops net)) (syns net)" and "list_all at_rest (pops net)"
    and "list_all (quiet_action steps (pops net)) sched"
    and "list_all (\<lambda>n. iteration n = int i) (pops net)" and "i < steps"
    and "carries_tag (syns net) GLUTAMATE \<and> carries_tag (syns net) GABA"
  shows "simulate_iteration sched net =
     Inr (net\<lparr>pops := map (\<lambda>n. n\<lparr>iteration := int (Suc i)\<rparr>) (pops net)\<rparr>)"
proof -
  let ?net1 = "net\<lparr>pops := map (\<lambda>n. n\<lparr>iteration := iteration n + 1\<rparr>) (pops net)\<rparr>"
  have eq: "map (\<lambda>n. n\<lparr>iteration := iteration n + 1\<rparr>) (pops net) =
            map (\<lambda>n. n\<lparr>iteration := int (Suc i)\<rparr>) (pops net)"
    using assms(4) by (simp add: list_all_iff)
  have 1: "list_all (well_shaped (pops ?net1)) (syns ?net1)"
    using assms(1) by (simp add: well_shaped_iteration)
  have 2: "list_all at_rest (pops ?net1)"
    using assms(2) by (simp add: list_all_iff at_rest_iteration)
  have 3: "list_all (quiet_action steps (pops ?net1)) sched"
    using assms(3) by (simp add: quiet_action_iteration)
  have 4: "list_all (\<lambda>n. 1 \<le> iteration n \<and> iteration n \<le> int steps) (pops ?net1)"
    using assms(4,5) by (simp add: list_all_iff)
  have 5: "carries_tag (syns ?net1) GLUTAMATE \<and> carries_tag (syns ?net1) GABA"
    using assms(6) by simp
  have "simulate_iteration sched net = Inr ?net1"
    unfolding simulate_iteration_def by (rule run_schedule_at_rest [OF 1 2 3 4 5])
  then show ?thesis
    unfolding eq .
qed

lemma simulate_iterations_at_rest:
  assumes "list_all (well_shaped (pops net)) (syns net)" and "list_all at_rest (pops net)"
    and "list_all (quiet_action steps (pops net)) sched"
    and "list_all (\<lambda>n. iteration n = int i) (pops net)" and "i + m \<le> steps"
    and "carries_tag (syns net) GLUTAMATE \<and> carries_tag (syns net) GABA"
  shows "simulate_iterations sched m net =
     Inr (net\<lparr>pops := map (\<lambda>n. n\<lparr>iteration := int (i + m)\<rparr>) (pops net)\<rparr>)"
  using assms
proof (induction m arbitrary: net i)
  case 0
  then have "map (\<lambda>n. n\<lparr>iteration := int i\<rparr>) (pops net) = pops net"
    by (intro map_idI) (simp add: list_all_iff)
  then show ?case by simp
next
  case (Suc m)
  let ?net1 = "net\<lparr>pops := map (\<lambda>n. n\<lparr>iteration := int (Suc i)\<rparr>) (pops net)\<rparr>"
  have step: "simulate_iteration sched net = Inr ?net1"
    using simulate_iteration_at_rest [OF Suc.prems(1,2,3,4) _ Suc.prems(6)] Suc.prems(5) by simp
  have 1: "list_all (well_shaped (pops ?net1)) (syns ?net1)"
    using Suc.prems(1) by (simp add: well_shaped_iteration)
  have 2: "list_all at_rest (pops ?net1)"
    using Suc.prems(2) by (simp add: list_all_iff at_rest_iteration)
  have 3: "list_all (quiet_action steps (pops ?net1)) sched"
    using Suc.prems(3) by (simp add: quiet_action_iteration)
  have 4: "list_all (\<lambda>n. iteration n = int (Suc i)) (pops ?net1)"
    by (simp add: list_all_iff)
  have 5: "Suc i + m \<le> steps"
    using Suc.prems(5) by simp
  have 6: "carries_tag (syns ?net1) GLUTAMATE \<and> carries_tag (syns ?net1) GABA"
    using Suc.prems(6) by simp
  show ?case
    using Suc.IH [OF 1 2 3 4 5 6] by (simp add: step comp_def)
qed

text \<open>
  C9. The network of an excitatory population of 100 neurons and an inhibitory
  population of 25, both as initialised, with any synapse groups of matching shapes
  among which both tags occur (none of them carries a behaviour, so the weights stay as
  they are) and any schedule of \<^verbatim>\<open>Input.forward\<close> with an all-zero waveform of at least
  4000 rows, \<^verbatim>\<open>Synapse.forward\<close> and \<^verbatim>\<open>LIF.forward\<close> calls per iteration: every number of
  iterations up to 4000 runs without error and ends with no spike in either population
  and every potential at \<open>v_rest = -65\<close>, below the threshold \<open>-55\<close>. (Without a group of
  one of the tags \<^verbatim>\<open>Synapse.forward\<close> raises a KeyError, as \<open>Synapse_forward_missing_tag\<close>
  shows, and the run stops before any spike.)
\<close>

theorem passive_network_never_spikes:
  assumes "list_all (well_shaped (pops (exc_inh_network ss))) ss"
    and "list_all (quiet_action ITER (pops (exc_inh_network ss))) sched"
    and "m \<le> ITER"
    and "carries_tag ss GLUTAMATE" and "carries_tag ss GABA"
  shows "\<exists>net. simulate_iterations sched m (exc_inh_network ss) = Inr net \<and>
           map spikes (pops net) = [replicate 100 False, replicate 25 False] \<and>
           map v (pops net) = [replicate 100 (-65), replicate 25 (-65)] \<and>
           map (\<lambda>n. threshold (params n)) (pops net) = [-55, -55] \<and>
           map iteration (pops net) = [int m, int m]"
proof -
  let ?net = "exc_inh_network ss"
  have 1: "list_all (well_shaped (pops ?net)) (syns ?net)"
    using assms(1) by (simp add: exc_inh_network_def)
  have 2: "list_all at_rest (pops ?net)"
    by (simp add: exc_inh_network_def new_population_at_rest EXC_CONFIG_def INH_CONFIG_def)
  have 4: "list_all (\<lambda>n. iteration n = int 0) (pops ?net)"
    by (simp add: exc_inh_network_def new_population_def LIF_initialize_def reset_inputs_def)
  have 5: "0 + m \<le> ITER"
    using assms(3) by simp
  have 6: "carries_tag (syns ?net) GLUTAMATE \<and> carries_tag (syns ?net) GABA"
    using assms(4,5) by (simp add: exc_inh_network_def)
  show ?thesis
    unfolding simulate_iterations_at_rest [OF 1 2 assms(2) 4 5 6]
    by (simp add: exc_inh_network_def new_population_def LIF_initialize_def reset_inputs_def
        EXC_CONFIG_def INH_CONFIG_def EXCITATORY_NEURON_SIZE_def INHIBITORY_NEURON_SIZE_def)
qed

theorem passive_network_never_spikes_witness:
  "list_all (well_shaped (pops (exc_inh_network
       [\<lparr>src = 0, dst = 1, tag = GLUTAMATE, W = replicate 25 (replicate 100 (1 / 2))\<rparr>,
        \<lparr>src = 1, dst = 0, tag = GABA, W = replicate 100 (replicate 25 1)\<rparr>])))
     [\<lparr>src = 0, dst = 1, tag = GLUTAMATE, W = replicate 25 (replicate 100 (1 / 2))\<rparr>,
        \<lparr>src = 1, dst = 0, tag = GABA, W = replicate 100 (replicate 25 1)\<rparr>] \<and>
   list_all (quiet_action ITER (pops (exc_inh_network
       [\<lparr>src = 0, dst = 1, tag = GLUTAMATE, W = replicate 25 (replicate 100 (1 / 2))\<rparr>,
        \<lparr>src = 1, dst = 0, tag = GABA, W = replicate 100 (replicate 25 1)\<rparr>])))
     (population_behaviours \<lparr>input = Some (replicate 4000 (replicate 100 0))\<rparr> 0 @
      population_behaviours \<lparr>input = Some (replicate 4000 (replicate 25 0))\<rparr> 1) \<and>
   ITER \<le> ITER \<and>
   carries_tag
     [\<lparr>src = 0, dst = 1, tag = GLUTAMATE, W = replicate 25 (replicate 100 (1 / 2))\<rparr>,
        \<lparr>src = 1, dst = 0, tag = GABA, W = replicate 100 (replicate 25 1)\<rparr>] GLUTAMATE \<and>
   carries_tag
     [\<lparr>src = 0, dst = 1, tag = GLUTAMATE, W = replicate 25 (replicate 100 (1 / 2))\<rparr>,
        \<lparr>src = 1, dst = 0, tag = GABA, W = replicate 100 (replicate 25 1)\<rparr>] GABA \<and>
   (\<exists>net. simulate_iterations
       (population_behaviours \<lparr>input = Some (replicate 4000 (replicate 100 0))\<rparr> 0 @
        population_behaviours \<lparr>input = Some (replicate 4000 (replicate 25 0))\<rparr> 1)
       ITER
       (exc_inh_network
         [\<lparr>src = 0, dst = 1, tag = GLUTAMATE, W = replicate 25 (replicate 100 (1 / 2))\<rparr>,
        \<lparr>src = 1, dst = 0, tag = GABA, W = replicate 100 (replicate 25 1)\<rparr>]) = Inr net \<and>
      map spikes (pops net) = [replicate 100 False, replicate 25 False] \<and>
      map v (pops net) = [replicate 100 (-65), replicate 25 (-65)])"
proof -
  have h1: "list_all (well_shaped (pops (exc_inh_network
       [\<lparr>src = 0, dst = 1, tag = GLUTAMATE, W = replicate 25 (replicate 100 (1 / 2))\<rparr>,
        \<lparr>src = 1, dst = 0, tag = GABA, W = replicate 100 (replicate 25 1)\<rparr>])))
     [\<lparr>src = 0, dst = 1, tag = GLUTAMATE, W = replicate 25 (replicate 100 (1 / 2))\<rparr>,
        \<lparr>src = 1, dst = 0, tag = GABA, W = replicate 100 (replicate 25 1)\<rparr>]"
    by (simp add: well_shaped_def exc_inh_network_def new_population_def LIF_initialize_def
        reset_inputs_def EXCITATORY_NEURON_SIZE_def INHIBITORY_NEURON_SIZE_def list_all_iff)
  have h2: "list_all (quiet_action ITER (pops (exc_inh_network
       [\<lparr>src = 0, dst = 1, tag = GLUTAMATE, W = replicate 25 (replicate 100 (1 / 2))\<rparr>,
        \<lparr>src = 1, dst = 0, tag = GABA, W = replicate 100 (replicate 25 1)\<rparr>])))
     (population_behaviours \<lparr>input = Some (replicate 4000 (replicate 100 0))\<rparr> 0 @
      population_behaviours \<lparr>input = Some (replicate 4000 (replicate 25 0))\<rparr> 1)"
    by (simp add: quiet_action_def zero_waveform_def population_behaviours_def ITER_def
        exc_inh_network_def new_population_def LIF_initialize_def
        reset_inputs_def EXCITATORY_NEURON_SIZE_def INHIBITORY_NEURON_SIZE_def list_all_iff)
  have h3: "ITER \<le> ITER"
    by simp
  have h4: "carries_tag
     [\<lparr>src = 0, dst = 1, tag = GLUTAMATE, W = replicate 25 (replicate 100 (1 / 2))\<rparr>,
        \<lparr>src = 1, dst = 0, tag = GABA, W = replicate 100 (replicate 25 1)\<rparr>] GLUTAMATE"
    by (simp add: carries_tag_def)
  have h5: "carries_tag
     [\<lparr>src = 0, dst = 1, tag = GLUTAMATE, W = replicate 25 (replicate 100 (1 / 2))\<rparr>,
        \<lparr>src = 1, dst = 0, tag = GABA, W = replicate 100 (replicate 25 1)\<rparr>] GABA"
    by (simp add: carries_tag_def)
  show ?thesis
    using passive_network_never_spikes [OF h1 h2 h3 h4 h5] h1 h2 h4 h5 by auto
qed

section \<open>Properties of the stimulus generator\<close>

lemma length_concat_replicate: "length (concat (replicate m xs)) = m * length xs"
  by (induction m) simp_all

lemma nth_concat_replicate:
  "t < m * length xs \<Longrightarrow> concat (replicate m xs) ! t = xs ! (t mod length xs)"
proof (induction m arbitrary: t)
  case 0
  then show ?case by simp
next
  case (Suc m)
  show ?case
  proof (cases "t < length xs")
    case True
    then show ?thesis by (simp add: nth_append)
  next
    case False
    then have "t - length xs < m * length xs"
      using Suc.prems by simp
    then have "concat (replicate m xs) ! (t - length xs) = xs ! ((t - length xs) mod length xs)"
      by (rule Suc.IH)
    moreover have "(t - length xs) mod length xs = t mod length xs"
      using False by (simp add: le_mod_geq)
    ultimately show ?thesis
      using False by (simp add: nth_append)
  qed
qed

lemma nth_concat_uniform:
  assumes "\<forall>xs\<in>set xss. length xs = d" and "t < length xss * d"
  shows "concat xss ! t = xss ! (t div d) ! (t mod d)"
  using assms
proof (induction xss arbitrary: t)
  case Nil
  then show ?case by simp
next
  case (Cons xs xss)
  have d: "length xs = d" and rest: "\<forall>ys\<in>set xss. length ys = d"
    using Cons.prems(1) by simp_all
  show ?case
  proof (cases "t < d")
    case True
    then show ?thesis by (simp add: nth_append d)
  next
    case False
    then have lt: "t - d < length xss * d"
      using Cons.prems(2) by simp
    have "0 < d"
      using False Cons.prems(2) by (cases d) simp_all
    have dv: "t div d = Suc ((t - d) div d)"
      using False \<open>0 < d\<close> by (simp add: le_div_geq)
    have md: "t mod d = (t - d) mod d"
      using False by (simp add: le_mod_geq)
    show ?thesis
      using Cons.IH [OF rest lt] False by (simp add: nth_append d dv md)
  qed
qed

lemma length_episode_rows:
  "length signal = sd \<Longrightarrow> length (episode_rows signal sr rd ps) = (sd + rd) * sr + rd"
  by (simp add: episode_rows_def length_concat_replicate)

lemma length_episode_labels: "length (episode_labels c sd sr rd) = (sd + rd) * sr + rd"
  by (simp add: episode_labels_def length_concat_replicate)

lemma nth_episode_labels:
  assumes "t < (sd + rd) * sr + rd"
  shows "episode_labels c sd sr rd ! t =
     (if (sd + rd) * sr \<le> t \<or> sd \<le> t mod (sd + rd) then - 1 else of_bool c)"
proof (cases "t < (sd + rd) * sr")
  case True
  then have "t < sr * length (replicate sd (of_bool c :: real) @ replicate rd (- 1))"
    by (simp add: mult.commute)
  then have "concat (replicate sr (replicate sd (of_bool c :: real) @ replicate rd (- 1))) ! t =
      (replicate sd (of_bool c) @ replicate rd (- 1)) ! (t mod (sd + rd))"
    using nth_concat_replicate [of t sr "replicate sd (of_bool c :: real) @ replicate rd (- 1)"]
    by simp
  moreover have "0 < sd + rd"
    using True by (cases "sd + rd") simp_all
  then have "t mod (sd + rd) < sd + rd"
    by simp
  ultimately show ?thesis
    using True
    by (simp add: episode_labels_def nth_append length_concat_replicate mult.commute)
next
  case False
  then show ?thesis
    using assms
    by (simp add: episode_labels_def nth_append length_concat_replicate mult.commute)
qed

lemma nth_episode_rows:
  assumes "t < (sd + rd) * sr + rd" and "length signal = sd"
  shows "episode_rows signal sr rd ps ! t =
     (if (sd + rd) * sr \<le> t \<or> sd \<le> t mod (sd + rd) then replicate ps 0
      else signal ! (t mod (sd + rd)))"
proof (cases "t < (sd + rd) * sr")
  case True
  then have "t < sr * length (signal @ replicate rd (replicate ps (0::real)))"
    using assms(2) by (simp add: mult.commute)
  then have "concat (replicate sr (signal @ replicate rd (replicate ps (0::real)))) ! t =
      (signal @ replicate rd (replicate ps 0)) ! (t mod (sd + rd))"
    using nth_concat_replicate [of t sr "signal @ replicate rd (replicate ps (0::real))"] assms(2)
    by simp
  moreover have "0 < sd + rd"
    using True by (cases "sd + rd") simp_all
  then have "t mod (sd + rd) < sd + rd"
    by simp
  ultimately show ?thesis
    using True assms(2)
    by (simp add: episode_rows_def nth_append length_concat_replicate mult.commute)
next
  case False
  then show ?thesis
    using assms
    by (simp add: episode_rows_def nth_append length_concat_replicate mult.commute)
qed


lemma slice_assign_nat:
  assumes "a + length block \<le> length xs"
  shows "slice_assign xs (int a) (int a + int (length block)) block =
         Inr (take a xs @ block @ drop (a + length block) xs)"
proof -
  have 1: "slice_index (length xs) (int a) = a"
    using assms by (simp add: slice_index_def)
  have "int a + int (length block) = int (a + length block)"
    by simp
  then have 2: "slice_index (length xs) (int a + int (length block)) = a + length block"
    using assms unfolding slice_index_def by (simp del: of_nat_add)
  show ?thesis
    unfolding slice_assign_def Let_def 1 2 by simp
qed

lemma get_signal_over_iter_nat:
  "get_signal_over_iter signal (int sr) (int rd) (int ps) =
   Inr (concat (replicate sr (signal @ replicate rd (replicate ps 0))))"
  by (simp add: get_signal_over_iter_def torch_zeros_def tensor_repeat_def and_then_def)

lemma get_signal_over_iter_Inr:
  assumes "get_signal_over_iter signal sr rd ps = Inr x"
  shows "0 \<le> sr \<and> 0 \<le> rd \<and> 0 \<le> ps"
  using assms
  by (auto simp add: get_signal_over_iter_def torch_zeros_def tensor_repeat_def and_then_def
      split: if_splits)

lemma get_signal_no_over_iter_nat:
  "get_signal_no_over_iter c (int sd) (int sr) (int rd) = Inr (episode_labels c sd sr rd)"
  by (simp add: get_signal_no_over_iter_def torch_full_def tensor_repeat_def and_then_def
      episode_labels_def Let_def)

lemma signal_at_pair: "signal_at (Some [s0, s1]) c = Inr (if c then s1 else s0)"
  by (simp add: signal_at_def)

lemma episode_nat:
  assumes sig: "signals ig = Some [s0, s1]" "length s0 = sd" "length s1 = sd"
    and len: "Suc i * ((sd + rd) * sr + rd) \<le> length M"
      "Suc i * ((sd + rd) * sr + rd) \<le> length (random_signal_no ig)"
  shows "episode rng (int ((sd + rd) * sr + rd)) (int sd) (int sr) (int rd) (int ps) i (ig, M, g) =
     Inr (ig\<lparr>random_signal_no :=
               take (i * ((sd + rd) * sr + rd)) (random_signal_no ig) @
               episode_labels (1 / 2 < fst (rand rng g)) sd sr rd @
               drop (Suc i * ((sd + rd) * sr + rd)) (random_signal_no ig),
             signal_orders := signal_orders ig @ [1 / 2 < fst (rand rng g)]\<rparr>,
          take (i * ((sd + rd) * sr + rd)) M @
          episode_rows (if 1 / 2 < fst (rand rng g) then s1 else s0) sr rd ps @
          drop (Suc i * ((sd + rd) * sr + rd)) M,
          snd (rand rng g))"
proof -
  let ?d = "(sd + rd) * sr + rd"
  let ?c = "1 / 2 < fst (rand rng g)"
  let ?rows = "episode_rows (if ?c then s1 else s0) sr rd ps"
  let ?labs = "episode_labels ?c sd sr rd"
  have lr: "length ?rows = ?d"
    using sig(2,3) by (simp add: length_episode_rows)
  have ll: "length ?labs = ?d"
    by (rule length_episode_labels)
  have st: "int i * int ?d = int (i * ?d)"
    by simp
  have a1: "slice_assign M (int (i * ?d)) (int (i * ?d) + int ?d) ?rows =
      Inr (take (i * ?d) M @ ?rows @ drop (Suc i * ?d) M)"
    using slice_assign_nat [of "i * ?d" ?rows M] len(1) unfolding lr by (simp add: add.commute)
  have a2: "slice_assign (random_signal_no ig) (int (i * ?d)) (int (i * ?d) + int ?d) ?labs =
      Inr (take (i * ?d) (random_signal_no ig) @ ?labs @ drop (Suc i * ?d) (random_signal_no ig))"
    using slice_assign_nat [of "i * ?d" ?labs "random_signal_no ig"] len(2) unfolding ll
    by (simp add: add.commute)
  have rows: "concat (replicate sr ((if ?c then s1 else s0) @ replicate rd (replicate ps 0))) @
      replicate rd (replicate ps 0) = ?rows"
    by (simp add: episode_rows_def)
  have z: "torch_zeros (int rd) (int ps) = Inr (replicate rd (replicate ps 0))"
    by (simp add: torch_zeros_def)
  obtain u g1 where r: "rand rng g = (u, g1)"
    by (cases "rand rng g")
  show ?thesis
    unfolding episode_def st
    using a1 a2 rows
    by (simp add: r Let_def and_then_def sig(1) signal_at_pair get_signal_over_iter_nat
        get_signal_no_over_iter_nat z del: of_nat_add of_nat_mult)
qed


lemma splice_length:
  assumes "p + length B = q" and "q \<le> length L"
  shows "length (take p L @ B @ drop q L) = length L"
  using assms by simp

lemma splice_take:
  assumes "p + length B = q" and "q \<le> length L"
  shows "take q (take p L @ B @ drop q L) = take p L @ B"
  using assms by simp

lemma splice_drop:
  assumes "p + length B = q" and "q \<le> length L" and "q \<le> j"
  shows "drop j (take p L @ B @ drop q L) = drop j L"
proof -
  have "j - p - length B + q = j"
    using assms by simp
  then show ?thesis
    using assms by simp
qed

lemma episodes_nat:
  assumes sig: "signals ig = Some [s0, s1]" "length s0 = sd" "length s1 = sd"
    and len: "(i + m) * ((sd + rd) * sr + rd) \<le> length M"
      "(i + m) * ((sd + rd) * sr + rd) \<le> length (random_signal_no ig)"
  shows "\<exists>cs g'. length cs = m \<and>
     episodes rng (int ((sd + rd) * sr + rd)) (int sd) (int sr) (int rd) (int ps) [i..<i + m] (ig, M, g) =
     Inr (ig\<lparr>random_signal_no :=
               take (i * ((sd + rd) * sr + rd)) (random_signal_no ig) @
               concat (map (\<lambda>c. episode_labels c sd sr rd) cs) @
               drop ((i + m) * ((sd + rd) * sr + rd)) (random_signal_no ig),
             signal_orders := signal_orders ig @ cs\<rparr>,
          take (i * ((sd + rd) * sr + rd)) M @
          concat (map (\<lambda>c. episode_rows (if c then s1 else s0) sr rd ps) cs) @
          drop ((i + m) * ((sd + rd) * sr + rd)) M,
          g')"
  using sig(1) len
proof (induction m arbitrary: i ig M g)
  case 0
  show ?case
    by (rule exI [of _ "[]"], rule exI [of _ g]) simp
next
  case (Suc m)
  let ?d = "(sd + rd) * sr + rd"
  let ?L = "random_signal_no ig"
  let ?c = "1 / 2 < fst (rand rng g)"
  let ?labs = "episode_labels ?c sd sr rd"
  let ?rows = "episode_rows (if ?c then s1 else s0) sr rd ps"
  let ?L1 = "take (i * ?d) ?L @ ?labs @ drop (Suc i * ?d) ?L"
  let ?M1 = "take (i * ?d) M @ ?rows @ drop (Suc i * ?d) M"
  let ?ig1 = "ig\<lparr>random_signal_no := ?L1, signal_orders := signal_orders ig @ [?c]\<rparr>"
  have b1: "Suc i * ?d \<le> length M" and b2: "Suc i * ?d \<le> length ?L"
    using Suc.prems(2,3) by (simp_all add: algebra_simps)
  have ll: "i * ?d + length ?labs = Suc i * ?d"
    by (simp add: length_episode_labels)
  have lr: "i * ?d + length ?rows = Suc i * ?d"
    using sig(2,3) by (simp add: length_episode_rows)
  have step: "episode rng (int ?d) (int sd) (int sr) (int rd) (int ps) i (ig, M, g) =
      Inr (?ig1, ?M1, snd (rand rng g))"
    by (rule episode_nat [OF Suc.prems(1) sig(2,3) b1 b2])
  have s1: "signals ?ig1 = Some [s0, s1]"
    using Suc.prems(1) by simp
  have l1: "(Suc i + m) * ?d \<le> length ?M1"
    unfolding splice_length [OF lr b1] using Suc.prems(2) by simp
  have l2: "(Suc i + m) * ?d \<le> length (random_signal_no ?ig1)"
    using splice_length [OF ll b2] Suc.prems(3) by simp
  obtain cs g' where cs: "length cs = m" and run:
    "episodes rng (int ?d) (int sd) (int sr) (int rd) (int ps) [Suc i..<Suc i + m]
       (?ig1, ?M1, snd (rand rng g)) =
     Inr (?ig1\<lparr>random_signal_no :=
               take (Suc i * ?d) (random_signal_no ?ig1) @
               concat (map (\<lambda>c. episode_labels c sd sr rd) cs) @
               drop ((Suc i + m) * ?d) (random_signal_no ?ig1),
             signal_orders := signal_orders ?ig1 @ cs\<rparr>,
          take (Suc i * ?d) ?M1 @
          concat (map (\<lambda>c. episode_rows (if c then s1 else s0) sr rd ps) cs) @
          drop ((Suc i + m) * ?d) ?M1,
          g')"
    using Suc.IH [OF s1 l1 l2] by blast
  have le: "Suc i * ?d \<le> (Suc i + m) * ?d"
    by simp
  have t1: "take (Suc i * ?d) ?L1 = take (i * ?d) ?L @ ?labs"
    by (rule splice_take [OF ll b2])
  have t2: "take (Suc i * ?d) ?M1 = take (i * ?d) M @ ?rows"
    by (rule splice_take [OF lr b1])
  have d1: "drop ((Suc i + m) * ?d) ?L1 = drop ((Suc i + m) * ?d) ?L"
    by (rule splice_drop [OF ll b2 le])
  have d2: "drop ((Suc i + m) * ?d) ?M1 = drop ((Suc i + m) * ?d) M"
    by (rule splice_drop [OF lr b1 le])
  have up: "[i..<i + Suc m] = i # [Suc i..<Suc i + m]"
    by (simp add: upt_conv_Cons)
  have "episodes rng (int ?d) (int sd) (int sr) (int rd) (int ps) [i..<i + Suc m] (ig, M, g) =
     Inr (ig\<lparr>random_signal_no :=
               take (i * ?d) ?L @
               concat (map (\<lambda>c. episode_labels c sd sr rd) (?c # cs)) @
               drop ((i + Suc m) * ?d) ?L,
             signal_orders := signal_orders ig @ (?c # cs)\<rparr>,
          take (i * ?d) M @
          concat (map (\<lambda>c. episode_rows (if c then s1 else s0) sr rd ps) (?c # cs)) @
          drop ((i + Suc m) * ?d) M,
          g')"
    unfolding up episodes.simps step and_then_def sum.case run
    using t1 t2 d1 d2 by simp
  moreover have "length (?c # cs) = Suc m"
    using cs by simp
  ultimately show ?case
    by blast
qed


lemma length_draw_rows: "length (fst (draw_rows d m c g)) = m"
proof (induction m arbitrary: g)
  case 0
  then show ?case by simp
next
  case (Suc m)
  obtain row g1 where a: "draws d c g = (row, g1)"
    by (cases "draws d c g")
  obtain rows g2 where b: "draw_rows d m c g1 = (rows, g2)"
    by (cases "draw_rows d m c g1")
  show ?case
    using Suc [of g1] by (simp add: a b)
qed

lemma length_gate: "length (gate e xs) = min (length e) (length xs)"
  by (simp add: gate_def)

lemma set_signals_Inr:
  assumes "set_signals rng ig sd ps seed = Inr (ig2, g1)"
  shows "0 \<le> sd \<and> 0 \<le> ps \<and>
         (\<exists>s0 s1. ig2 = ig\<lparr>signals := Some [s0, s1]\<rparr> \<and> length s0 = nat sd \<and> length s1 = nat sd)"
proof -
  have nn: "0 \<le> sd \<and> 0 \<le> ps"
    using assms
    by (auto simp add: set_signals_def torch_rand_def and_then_def split: if_splits)
  obtain u ga where u: "draw_rows (rand rng) (nat sd) (nat ps) (manual_seed rng seed) = (u, ga)"
    by (cases "draw_rows (rand rng) (nat sd) (nat ps) (manual_seed rng seed)")
  obtain x gb where x: "draw_rows (normal rng (mean ig) (std ig)) (nat sd) (nat ps) ga = (x, gb)"
    by (cases "draw_rows (normal rng (mean ig) (std ig)) (nat sd) (nat ps) ga")
  have lu: "length u = nat sd"
    using length_draw_rows [of "rand rng" "nat sd" "nat ps" "manual_seed rng seed"] u by simp
  have lx: "length x = nat sd"
    using length_draw_rows [of "normal rng (mean ig) (std ig)" "nat sd" "nat ps" ga] x by simp
  have "ig2 = ig\<lparr>signals := Some [gate (map (map (\<lambda>y. gate_threshold ig < y)) u) x,
                                     gate (map (map Not) (map (map (\<lambda>y. gate_threshold ig < y)) u)) x]\<rparr>"
    using assms nn
    by (auto simp add: set_signals_def torch_rand_def torch_normal_def and_then_def u x Let_def
        split: if_splits)
  moreover have "length (gate (map (map (\<lambda>y. gate_threshold ig < y)) u) x) = nat sd"
    and "length (gate (map (map Not) (map (map (\<lambda>y. gate_threshold ig < y)) u)) x) = nat sd"
    by (simp_all add: length_gate lu lx)
  ultimately show ?thesis
    using nn by blast
qed

lemma episode_Inr:
  assumes "episode rng d sd sr rd ps i st = Inr st'"
  shows "0 \<le> sr \<and> 0 \<le> rd"
proof -
  obtain ig M g where st: "st = (ig, M, g)"
    by (cases st)
  obtain u g1 where r: "rand rng g = (u, g1)"
    by (cases "rand rng g")
  obtain sg where "signal_at (signals ig) (1 / 2 < u) = Inr sg"
    using assms unfolding episode_def st
    by (cases "signal_at (signals ig) (1 / 2 < u)") (simp_all add: r Let_def and_then_def)
  then obtain x where "get_signal_over_iter sg sr rd ps = Inr x"
    using assms unfolding episode_def st
    by (cases "get_signal_over_iter sg sr rd ps") (simp_all add: r Let_def and_then_def)
  then show ?thesis
    using get_signal_over_iter_Inr by blast
qed


lemma get_random_signals_layout:
  assumes run: "get_random_signals rng ig iter sd sr rd ps seed g = Inr (M, ig', g')"
    and pos: "0 < iter"
  shows "0 \<le> sd \<and> 0 \<le> sr \<and> 0 \<le> rd \<and> 0 \<le> ps \<and>
    (\<exists>s0 s1 cs. length s0 = nat sd \<and> length s1 = nat sd \<and> length cs = nat iter \<and>
       ig' = ig\<lparr>signals := Some [s0, s1], signal_orders := cs,
                  random_signal_no :=
                    concat (map (\<lambda>c. episode_labels c (nat sd) (nat sr) (nat rd)) cs)\<rparr> \<and>
       M = concat (map (\<lambda>c. episode_rows (if c then s1 else s0) (nat sr) (nat rd) (nat ps)) cs))"
proof -
  let ?D = "(sd + rd) * sr + rd"
  obtain ig2 g1 where set: "set_signals rng (ig\<lparr>signal_orders := []\<rparr>) sd ps seed = Inr (ig2, g1)"
    using run unfolding get_random_signals_def Let_def
    by (cases "set_signals rng (ig\<lparr>signal_orders := []\<rparr>) sd ps seed")
      (auto simp add: and_then_def)
  obtain M0 where m0: "torch_zeros (?D * iter) ps = Inr M0"
    using run unfolding get_random_signals_def Let_def set
    by (cases "torch_zeros (?D * iter) ps") (auto simp add: and_then_def)
  obtain L0 where l0: "torch_full (?D * iter) 0 = Inr L0"
    using run unfolding get_random_signals_def Let_def set m0
    by (cases "torch_full (?D * iter) 0") (auto simp add: and_then_def)
  have eps: "episodes rng ?D sd sr rd ps [0..<nat iter] (ig2\<lparr>random_signal_no := L0\<rparr>, M0, g1) =
      Inr (ig', M, g')"
    using run unfolding get_random_signals_def Let_def set m0 l0
    by (cases "episodes rng ?D sd sr rd ps [0..<nat iter] (ig2\<lparr>random_signal_no := L0\<rparr>, M0, g1)")
      (auto simp add: and_then_def)
  have up: "[0..<nat iter] = 0 # [Suc 0..<nat iter]"
    using pos by (simp add: upt_conv_Cons)
  obtain st1 where "episode rng ?D sd sr rd ps 0 (ig2\<lparr>random_signal_no := L0\<rparr>, M0, g1) = Inr st1"
    using eps unfolding up episodes.simps
    by (cases "episode rng ?D sd sr rd ps 0 (ig2\<lparr>random_signal_no := L0\<rparr>, M0, g1)")
      (auto simp add: and_then_def)
  then have nn1: "0 \<le> sr \<and> 0 \<le> rd"
    by (rule episode_Inr)
  obtain s0 s1 where nn2: "0 \<le> sd" "0 \<le> ps"
    and ig2: "ig2 = ig\<lparr>signal_orders := [], signals := Some [s0, s1]\<rparr>"
    and ls: "length s0 = nat sd" "length s1 = nat sd"
    using set_signals_Inr [OF set] by blast
  define nsd nsr nrd nps m where "nsd = nat sd" and "nsr = nat sr" and "nrd = nat rd"
    and "nps = nat ps" and "m = nat iter"
  have cv: "sd = int nsd" "sr = int nsr" "rd = int nrd" "ps = int nps" "iter = int m"
    using nn1 nn2 pos by (simp_all add: nsd_def nsr_def nrd_def nps_def m_def)
  let ?d = "(nsd + nrd) * nsr + nrd"
  have D: "?D = int ?d"
    by (simp add: cv)
  have "?D * iter = int (m * ?d)"
    unfolding D cv(5) by simp
  then have tot: "nat (?D * iter) = m * ?d"
    by (simp only: nat_int)
  have M0: "M0 = replicate (m * ?d) (replicate nps 0)"
    using m0 tot by (auto simp add: torch_zeros_def cv(4) split: if_splits)
  have L0: "L0 = replicate (m * ?d) 0"
    using l0 tot by (auto simp add: torch_full_def split: if_splits)
  have sg: "signals (ig2\<lparr>random_signal_no := L0\<rparr>) = Some [s0, s1]"
    by (simp add: ig2)
  have b1: "(0 + m) * ?d \<le> length M0"
    by (simp add: M0)
  have b2: "(0 + m) * ?d \<le> length (random_signal_no (ig2\<lparr>random_signal_no := L0\<rparr>))"
    by (simp add: L0)
  obtain cs g2 where cs: "length cs = m" and res:
    "episodes rng (int ?d) (int nsd) (int nsr) (int nrd) (int nps) [0..<0 + m]
       (ig2\<lparr>random_signal_no := L0\<rparr>, M0, g1) =
     Inr ((ig2\<lparr>random_signal_no := L0\<rparr>)\<lparr>random_signal_no :=
               take (0 * ?d) (random_signal_no (ig2\<lparr>random_signal_no := L0\<rparr>)) @
               concat (map (\<lambda>c. episode_labels c nsd nsr nrd) cs) @
               drop ((0 + m) * ?d) (random_signal_no (ig2\<lparr>random_signal_no := L0\<rparr>)),
             signal_orders := signal_orders (ig2\<lparr>random_signal_no := L0\<rparr>) @ cs\<rparr>,
          take (0 * ?d) M0 @
          concat (map (\<lambda>c. episode_rows (if c then s1 else s0) nsr nrd nps) cs) @
          drop ((0 + m) * ?d) M0,
          g2)"
    using episodes_nat [OF sg _ _ b1 b2, where rng = rng and ps = nps and g = g1] ls
    unfolding nsd_def by blast
  have "Inr (ig', M, g') =
     Inr ((ig2\<lparr>random_signal_no := L0\<rparr>)\<lparr>random_signal_no :=
               take (0 * ?d) (random_signal_no (ig2\<lparr>random_signal_no := L0\<rparr>)) @
               concat (map (\<lambda>c. episode_labels c nsd nsr nrd) cs) @
               drop ((0 + m) * ?d) (random_signal_no (ig2\<lparr>random_signal_no := L0\<rparr>)),
             signal_orders := signal_orders (ig2\<lparr>random_signal_no := L0\<rparr>) @ cs\<rparr>,
          take (0 * ?d) M0 @
          concat (map (\<lambda>c. episode_rows (if c then s1 else s0) nsr nrd nps) cs) @
          drop ((0 + m) * ?d) M0,
          g2)"
    using eps res unfolding D cv(1,2,3,4) m_def [symmetric] by simp
  then have "ig' = ig\<lparr>signals := Some [s0, s1], signal_orders := cs,
                  random_signal_no := concat (map (\<lambda>c. episode_labels c nsd nsr nrd) cs)\<rparr>"
    and "M = concat (map (\<lambda>c. episode_rows (if c then s1 else s0) nsr nrd nps) cs)"
    by (simp_all add: ig2 L0 M0)
  then show ?thesis
    using nn1 nn2 ls cs unfolding nsd_def nsr_def nrd_def nps_def m_def by blast
qed

lemma get_random_signals_no_episode:
  assumes run: "get_random_signals rng ig iter sd sr rd ps seed g = Inr (M, ig', g')"
    and neg: "iter \<le> 0"
  shows "\<exists>j. random_signal_no ig' = replicate j 0"
proof -
  let ?D = "(sd + rd) * sr + rd"
  obtain ig2 g1 where set: "set_signals rng (ig\<lparr>signal_orders := []\<rparr>) sd ps seed = Inr (ig2, g1)"
    using run unfolding get_random_signals_def Let_def
    by (cases "set_signals rng (ig\<lparr>signal_orders := []\<rparr>) sd ps seed")
      (auto simp add: and_then_def)
  obtain M0 where m0: "torch_zeros (?D * iter) ps = Inr M0"
    using run unfolding get_random_signals_def Let_def set
    by (cases "torch_zeros (?D * iter) ps") (auto simp add: and_then_def)
  obtain L0 where l0: "torch_full (?D * iter) 0 = Inr L0"
    using run unfolding get_random_signals_def Let_def set m0
    by (cases "torch_full (?D * iter) 0") (auto simp add: and_then_def)
  have "nat iter = 0"
    using neg by simp
  then have "ig' = ig2\<lparr>random_signal_no := L0\<rparr>"
    using run unfolding get_random_signals_def Let_def set m0 l0
    by (simp add: and_then_def)
  moreover have "L0 = replicate (nat (?D * iter)) 0"
    using l0 by (auto simp add: torch_full_def split: if_splits)
  ultimately show ?thesis
    by simp
qed


lemma length_concat_uniform:
  "\<forall>xs\<in>set xss. length xs = d \<Longrightarrow> length (concat xss) = length xss * d"
  by (induction xss) simp_all

lemma example_run:
  "get_random_signals example_rng example_generator 2 2 1 1 2 7 0 =
   Inr ([[0, - 1], [1, 3], [0, 0], [0, 0], [3, 0], [0, 0], [0, 0], [0, 0]],
        \<lparr>mean = 1, std = 2, gate_threshold = 1 / 2,
         signals = Some [[[3, 0], [0, 0]], [[0, - 1], [1, 3]]],
         signal_orders = [True, False],
         random_signal_no = [1, 1, - 1, - 1, 0, 0, - 1, - 1]\<rparr>,
        17)"
  by code_simp


lemma get_random_signals_prior:
  "get_random_signals rng (ig\<lparr>signals := s1, signal_orders := o1, random_signal_no := l1\<rparr>)
     iter sd sr rd ps seed g1 =
   get_random_signals rng ig iter sd sr rd ps seed g2"
  unfolding get_random_signals_def Let_def set_signals_def
  by (simp add: and_then_def split: sum.splits prod.splits)

lemma get_random_signals_frame:
  assumes "get_random_signals rng ig iter sd sr rd ps seed g = Inr (M, ig', g')"
  shows "ig' = ig\<lparr>signals := signals ig', signal_orders := signal_orders ig',
                    random_signal_no := random_signal_no ig'\<rparr>"
proof (cases "0 < iter")
  case True
  then show ?thesis
    using get_random_signals_layout [OF assms] by auto
next
  case False
  let ?D = "(sd + rd) * sr + rd"
  obtain ig2 g1 where set: "set_signals rng (ig\<lparr>signal_orders := []\<rparr>) sd ps seed = Inr (ig2, g1)"
    using assms unfolding get_random_signals_def Let_def
    by (cases "set_signals rng (ig\<lparr>signal_orders := []\<rparr>) sd ps seed")
      (auto simp add: and_then_def)
  obtain M0 where m0: "torch_zeros (?D * iter) ps = Inr M0"
    using assms unfolding get_random_signals_def Let_def set
    by (cases "torch_zeros (?D * iter) ps") (auto simp add: and_then_def)
  obtain L0 where l0: "torch_full (?D * iter) 0 = Inr L0"
    using assms unfolding get_random_signals_def Let_def set m0
    by (cases "torch_full (?D * iter) 0") (auto simp add: and_then_def)
  have "nat iter = 0"
    using False by simp
  then have "ig' = ig2\<lparr>random_signal_no := L0\<rparr>"
    using assms unfolding get_random_signals_def Let_def set m0 l0
    by (simp add: and_then_def)
  then show ?thesis
    using set_signals_Inr [OF set] by auto
qed

text \<open>
  C7. The outcome of \<^verbatim>\<open>get_random_signals\<close> (the returned matrix, the label vector and
  the list of chosen classes kept on the object, the state the generator is left in, or
  the error) is a function of the seed, the five shape and count arguments and the
  object's mean, deviation and gate probability alone: it is the same from every state
  of the global generator and every earlier content of the object's \<^verbatim>\<open>signals\<close>,
  \<^verbatim>\<open>signal_orders\<close> and \<^verbatim>\<open>random_signal_no\<close>. So a second invocation with the same
  arguments, in the state the first one left, repeats the outcome of the first.
\<close>

theorem get_random_signals_reproducible:
  "get_random_signals rng (ig\<lparr>signals := s1, signal_orders := o1, random_signal_no := l1\<rparr>)
     iter sd sr rd ps seed g1 =
   get_random_signals rng (ig\<lparr>signals := s2, signal_orders := o2, random_signal_no := l2\<rparr>)
     iter sd sr rd ps seed g2 \<and>
   and_then (get_random_signals rng ig iter sd sr rd ps seed g1)
     (\<lambda>(M, ig', g'). get_random_signals rng ig' iter sd sr rd ps seed g') =
   get_random_signals rng ig iter sd sr rd ps seed g1"
proof
  show "get_random_signals rng (ig\<lparr>signals := s1, signal_orders := o1, random_signal_no := l1\<rparr>)
     iter sd sr rd ps seed g1 =
   get_random_signals rng (ig\<lparr>signals := s2, signal_orders := o2, random_signal_no := l2\<rparr>)
     iter sd sr rd ps seed g2"
    using get_random_signals_prior [where rng = rng and ig = ig and ?g2.0 = g1]
    by simp
  show "and_then (get_random_signals rng ig iter sd sr rd ps seed g1)
     (\<lambda>(M, ig', g'). get_random_signals rng ig' iter sd sr rd ps seed g') =
   get_random_signals rng ig iter sd sr rd ps seed g1"
  proof (cases "get_random_signals rng ig iter sd sr rd ps seed g1")
    case (Inl e)
    then show ?thesis
      by (simp add: and_then_def)
  next
    case (Inr res)
    obtain M ig' g' where res: "res = (M, ig', g')"
      by (cases res)
    have "get_random_signals rng
            (ig\<lparr>signals := signals ig', signal_orders := signal_orders ig',
                random_signal_no := random_signal_no ig'\<rparr>) iter sd sr rd ps seed g' =
          get_random_signals rng ig iter sd sr rd ps seed g1"
      by (rule get_random_signals_prior)
    then have "get_random_signals rng ig' iter sd sr rd ps seed g' =
          get_random_signals rng ig iter sd sr rd ps seed g1"
      using get_random_signals_frame [OF Inr [unfolded res]] by simp
    then show ?thesis
      by (simp add: and_then_def Inr res)
  qed
qed

text \<open>
  C8. In every result of \<^verbatim>\<open>get_random_signals\<close> the label vector is as long as the input
  matrix, and a timestep whose label is \<open>-1\<close> lies in a rest block of its episode and its
  row of the matrix is the row of zeros.
\<close>

theorem rest_label_marks_zero_rest_row:
  assumes run: "get_random_signals rng ig iter sd sr rd ps seed g = Inr (M, ig', g')"
    and t: "t < length (random_signal_no ig')"
    and lab: "random_signal_no ig' ! t = - 1"
  shows "length M = length (random_signal_no ig') \<and>
         M ! t = replicate (nat ps) 0 \<and>
         in_rest_block (nat sd) (nat sr) (nat rd) t"
proof (cases "0 < iter")
  case False
  then obtain j where "random_signal_no ig' = replicate j 0"
    using get_random_signals_no_episode [OF run] by auto
  then show ?thesis
    using t lab by simp
next
  case True
  let ?d = "(nat sd + nat rd) * nat sr + nat rd"
  obtain s0 s1 cs where ls: "length s0 = nat sd" "length s1 = nat sd"
    and L: "random_signal_no ig' =
        concat (map (\<lambda>c. episode_labels c (nat sd) (nat sr) (nat rd)) cs)"
    and M: "M = concat (map (\<lambda>c. episode_rows (if c then s1 else s0) (nat sr) (nat rd) (nat ps)) cs)"
    using get_random_signals_layout [OF run True] by auto
  have ul: "\<forall>xs\<in>set (map (\<lambda>c. episode_labels c (nat sd) (nat sr) (nat rd)) cs). length xs = ?d"
    by (simp add: length_episode_labels)
  have um: "\<forall>xs\<in>set (map (\<lambda>c. episode_rows (if c then s1 else s0) (nat sr) (nat rd) (nat ps)) cs).
      length xs = ?d"
    using ls by (auto simp add: length_episode_rows)
  have lenL: "length (random_signal_no ig') = length cs * ?d"
    unfolding L using length_concat_uniform [OF ul] by simp
  have lenM: "length M = length cs * ?d"
    unfolding M using length_concat_uniform [OF um] by simp
  have td: "t < length cs * ?d"
    using t lenL by simp
  have pos: "0 < ?d"
  proof (cases "?d = 0")
    case True
    then have "length cs * ?d = 0"
      by (simp only: mult_0_right)
    then show ?thesis
      using td by linarith
  next
    case False
    then show ?thesis
      by (simp only: neq0_conv)
  qed
  then have off: "t mod ?d < ?d"
    by (rule mod_less_divisor)
  have blk: "t div ?d < length cs"
    using td pos by (simp add: less_mult_imp_div_less)
  let ?c = "cs ! (t div ?d)"
  have "random_signal_no ig' ! t = episode_labels ?c (nat sd) (nat sr) (nat rd) ! (t mod ?d)"
    unfolding L using nth_concat_uniform [OF ul] td blk by simp
  then have "(if (nat sd + nat rd) * nat sr \<le> t mod ?d \<or> nat sd \<le> (t mod ?d) mod (nat sd + nat rd)
              then - 1 else of_bool ?c) = (- 1 :: real)"
    using nth_episode_labels [OF off] lab by simp
  then have rest: "(nat sd + nat rd) * nat sr \<le> t mod ?d \<or> nat sd \<le> (t mod ?d) mod (nat sd + nat rd)"
    by (cases ?c) (simp_all split: if_splits)
  have "M ! t = episode_rows (if ?c then s1 else s0) (nat sr) (nat rd) (nat ps) ! (t mod ?d)"
    unfolding M using nth_concat_uniform [OF um] td blk by simp
  then have "M ! t = replicate (nat ps) 0"
    using nth_episode_rows [OF off, of "if ?c then s1 else s0" "nat ps"] ls rest by simp
  moreover have "in_rest_block (nat sd) (nat sr) (nat rd) t"
    using rest by (simp add: in_rest_block_def Let_def)
  ultimately show ?thesis
    using lenL lenM by simp
qed

theorem rest_label_marks_zero_rest_row_witness:
  "get_random_signals example_rng example_generator 2 2 1 1 2 7 0 =
   Inr ([[0, - 1], [1, 3], [0, 0], [0, 0], [3, 0], [0, 0], [0, 0], [0, 0]],
        \<lparr>mean = 1, std = 2, gate_threshold = 1 / 2,
         signals = Some [[[3, 0], [0, 0]], [[0, - 1], [1, 3]]],
         signal_orders = [True, False],
         random_signal_no = [1, 1, - 1, - 1, 0, 0, - 1, - 1]\<rparr>,
        17) \<and>
   (2::nat) < length [1, 1, - 1, - 1, 0, 0, - 1, - 1 :: real] \<and>
   [1, 1, - 1, - 1, 0, 0, - 1, - 1 :: real] ! 2 = - 1 \<and>
   [[0, - 1], [1, 3], [0, 0], [0, 0], [3, 0], [0, 0], [0, 0], [0, 0]] ! 2 = replicate (nat 2) (0::real) \<and>
   in_rest_block (nat 2) (nat 1) (nat 1) 2"
  using rest_label_marks_zero_rest_row [OF example_run, of 2]
  by (simp add: example_run)

end
